theory Spec2Isabelle
  imports Complex_Main
begin

section \<open>Dense arrays in exact arithmetic\<close>

text \<open>
  The solver of \<^verbatim>\<open>mushroom_rl/solvers/lqr.py\<close> is written against numpy. Its arrays are
  modelled over the reals: a 2-D array carries its shape and its rows, a 1-D array is a
  list. Every numpy operation that can raise is a function into \<open>error + 'a\<close>.

  The reals are the exact arithmetic in which the formulas of the specification are stated.
  They are not the program's IEEE doubles: there is no rounding, no overflow to an infinity,
  no underflow to zero and no NaN here. What follows therefore settles what the solver
  computes in exact arithmetic (its formulas and its control flow); which double a call
  returns, and whether a LAPACK routine raises on a given double matrix, is outside it.
\<close>

datatype error =
    ShapeMismatch   \<comment> \<open>numpy's ValueError on operands whose shapes do not fit\<close>
  | NotSquare       \<comment> \<open>numpy's LinAlgError "Last 2 dimensions of the array must be square"\<close>
  | SingularMatrix  \<comment> \<open>numpy's LinAlgError "Singular matrix"\<close>
  | ZeroDivision    \<comment> \<open>Python's ZeroDivisionError: a Python float divided by zero\<close>
  | NonFinite       \<comment> \<open>a numpy scalar divided by zero: numpy warns and gives an infinity or a
                        NaN, which is no real number\<close>
  | IndexError      \<comment> \<open>an index out of range\<close>

record mat =
  nrows :: nat
  ncols :: nat
  rows :: "real list list"

type_synonym vec = "real list"

definition ent :: "mat \<Rightarrow> nat \<Rightarrow> nat \<Rightarrow> real" where
  "ent M i j = rows M ! i ! j"

definition mk_mat :: "nat \<Rightarrow> nat \<Rightarrow> (nat \<Rightarrow> nat \<Rightarrow> real) \<Rightarrow> mat" where
  "mk_mat r c f = \<lparr>nrows = r, ncols = c, rows = map (\<lambda>i. map (f i) [0..<c]) [0..<r]\<rparr>"

definition mk_vec :: "nat \<Rightarrow> (nat \<Rightarrow> real) \<Rightarrow> vec" where
  "mk_vec n f = map f [0..<n]"

definition wf_mat :: "mat \<Rightarrow> bool" where
  "wf_mat M = (length (rows M) = nrows M \<and> list_all (\<lambda>r. length r = ncols M) (rows M))"

definition is_mat :: "nat \<Rightarrow> nat \<Rightarrow> mat \<Rightarrow> bool" where
  "is_mat r c M = (wf_mat M \<and> nrows M = r \<and> ncols M = c)"

subsection \<open>Sequencing of operations that may raise\<close>

definition lift1 :: "('a \<Rightarrow> error + 'b) \<Rightarrow> error + 'a \<Rightarrow> error + 'b" where
  "lift1 f x = (case x of Inl e \<Rightarrow> Inl e | Inr a \<Rightarrow> f a)"

definition lift2 :: "('a \<Rightarrow> 'b \<Rightarrow> error + 'c) \<Rightarrow> error + 'a \<Rightarrow> error + 'b \<Rightarrow> error + 'c" where
  \<comment> \<open>Python evaluates the left operand, then the right one, then applies the operator.\<close>
  "lift2 f x y =
     (case x of Inl e \<Rightarrow> Inl e
      | Inr a \<Rightarrow> (case y of Inl e \<Rightarrow> Inl e | Inr b \<Rightarrow> f a b))"

definition map_e :: "('a \<Rightarrow> 'b) \<Rightarrow> error + 'a \<Rightarrow> error + 'b" where
  "map_e f x = (case x of Inl e \<Rightarrow> Inl e | Inr a \<Rightarrow> Inr (f a))"

subsection \<open>Operations that cannot raise\<close>

definition transpose_m :: "mat \<Rightarrow> mat" where
  \<comment> \<open>\<^verbatim>\<open>M.T\<close>\<close>
  "transpose_m M = mk_mat (ncols M) (nrows M) (\<lambda>i j. ent M j i)"

definition smul :: "real \<Rightarrow> mat \<Rightarrow> mat" where
  \<comment> \<open>\<^verbatim>\<open>g * M\<close> with a scalar \<open>g\<close>\<close>
  "smul g M = mk_mat (nrows M) (ncols M) (\<lambda>i j. g * ent M i j)"

definition mneg :: "mat \<Rightarrow> mat" where
  \<comment> \<open>\<^verbatim>\<open>-M\<close>\<close>
  "mneg M = mk_mat (nrows M) (ncols M) (\<lambda>i j. - ent M i j)"

definition vneg :: "vec \<Rightarrow> vec" where
  "vneg x = map uminus x"

definition eye :: "nat \<Rightarrow> mat" where
  \<comment> \<open>\<^verbatim>\<open>np.eye(n)\<close>, also \<^verbatim>\<open>np.eye(n, n)\<close>\<close>
  "eye n = mk_mat n n (\<lambda>i j. if i = j then 1 else 0)"

definition zeros :: "nat \<Rightarrow> nat \<Rightarrow> mat" where
  "zeros r c = mk_mat r c (\<lambda>i j. 0)"

definition kron :: "mat \<Rightarrow> mat \<Rightarrow> mat" where
  \<comment> \<open>\<^verbatim>\<open>np.kron(X, Y)\<close>: entry \<open>(i * rows Y + k, j * cols Y + l)\<close> is \<open>X[i,j] * Y[k,l]\<close>\<close>
  "kron X Y = mk_mat (nrows X * nrows Y) (ncols X * ncols Y)
     (\<lambda>i j. ent X (i div nrows Y) (j div ncols Y) * ent Y (i mod nrows Y) (j mod ncols Y))"

definition flatten :: "mat \<Rightarrow> vec" where
  \<comment> \<open>\<^verbatim>\<open>M.reshape(-1)\<close>: the entries in row-major order\<close>
  "flatten M = mk_vec (nrows M * ncols M) (\<lambda>k. ent M (k div ncols M) (k mod ncols M))"

definition trace :: "mat \<Rightarrow> real" where
  \<comment> \<open>\<^verbatim>\<open>np.trace(M)\<close>: the sum of the main diagonal, square or not\<close>
  "trace M = (\<Sum>i<min (nrows M) (ncols M). ent M i i)"

subsection \<open>Operations that check shapes\<close>

definition mmul :: "mat \<Rightarrow> mat \<Rightarrow> mat" where
  "mmul X Y = mk_mat (nrows X) (ncols Y) (\<lambda>i j. \<Sum>k<ncols X. ent X i k * ent Y k j)"

definition matmul :: "mat \<Rightarrow> mat \<Rightarrow> error + mat" where
  \<comment> \<open>\<^verbatim>\<open>X @ Y\<close> on two 2-D arrays\<close>
  "matmul X Y = (if ncols X = nrows Y then Inr (mmul X Y) else Inl ShapeMismatch)"

definition mvmul :: "mat \<Rightarrow> vec \<Rightarrow> vec" where
  "mvmul M x = mk_vec (nrows M) (\<lambda>i. \<Sum>j<ncols M. ent M i j * x ! j)"

definition matvec :: "mat \<Rightarrow> vec \<Rightarrow> error + vec" where
  \<comment> \<open>\<^verbatim>\<open>M @ x\<close> with 2-D \<open>M\<close> and 1-D \<open>x\<close>\<close>
  "matvec M x = (if ncols M = length x then Inr (mvmul M x) else Inl ShapeMismatch)"

definition vmmul :: "vec \<Rightarrow> mat \<Rightarrow> vec" where
  "vmmul x M = mk_vec (ncols M) (\<lambda>j. \<Sum>i<nrows M. x ! i * ent M i j)"

definition vecmat :: "vec \<Rightarrow> mat \<Rightarrow> error + vec" where
  \<comment> \<open>\<^verbatim>\<open>x @ M\<close> with 1-D \<open>x\<close> and 2-D \<open>M\<close>\<close>
  "vecmat x M = (if length x = nrows M then Inr (vmmul x M) else Inl ShapeMismatch)"

definition dot :: "vec \<Rightarrow> vec \<Rightarrow> real" where
  "dot x y = (\<Sum>i<length x. x ! i * y ! i)"

definition vecvec :: "vec \<Rightarrow> vec \<Rightarrow> error + real" where
  \<comment> \<open>\<^verbatim>\<open>x @ y\<close> on two 1-D arrays: a scalar\<close>
  "vecvec x y = (if length x = length y then Inr (dot x y) else Inl ShapeMismatch)"

definition bc_dim :: "nat \<Rightarrow> nat \<Rightarrow> nat option" where
  \<comment> \<open>numpy broadcasting of one axis: equal lengths, or one of them is 1\<close>
  "bc_dim a b = (if a = b then Some a else if a = 1 then Some b else if b = 1 then Some a else None)"

definition bc_ent :: "mat \<Rightarrow> nat \<Rightarrow> nat \<Rightarrow> real" where
  "bc_ent M i j = ent M (if nrows M = 1 then 0 else i) (if ncols M = 1 then 0 else j)"

definition binop :: "(real \<Rightarrow> real \<Rightarrow> real) \<Rightarrow> mat \<Rightarrow> mat \<Rightarrow> error + mat" where
  \<comment> \<open>an elementwise operator on two 2-D arrays, with broadcasting\<close>
  "binop f X Y =
     (case bc_dim (nrows X) (nrows Y) of
        None \<Rightarrow> Inl ShapeMismatch
      | Some r \<Rightarrow> (case bc_dim (ncols X) (ncols Y) of
            None \<Rightarrow> Inl ShapeMismatch
          | Some c \<Rightarrow> Inr (mk_mat r c (\<lambda>i j. f (bc_ent X i j) (bc_ent Y i j)))))"

definition madd :: "mat \<Rightarrow> mat \<Rightarrow> mat" where
  \<comment> \<open>what \<open>add\<close> computes on equal shapes\<close>
  "madd X Y = mk_mat (nrows X) (ncols X) (\<lambda>i j. ent X i j + ent Y i j)"

definition msub :: "mat \<Rightarrow> mat \<Rightarrow> mat" where
  \<comment> \<open>what \<open>sub\<close> computes on equal shapes\<close>
  "msub X Y = mk_mat (nrows X) (ncols X) (\<lambda>i j. ent X i j - ent Y i j)"

definition add :: "mat \<Rightarrow> mat \<Rightarrow> error + mat" where
  "add = binop (+)"

definition sub :: "mat \<Rightarrow> mat \<Rightarrow> error + mat" where
  "sub = binop (-)"

definition vadd :: "vec \<Rightarrow> vec \<Rightarrow> error + vec" where
  \<comment> \<open>\<^verbatim>\<open>x + y\<close> on two 1-D arrays, with broadcasting\<close>
  "vadd x y =
     (case bc_dim (length x) (length y) of
        None \<Rightarrow> Inl ShapeMismatch
      | Some n \<Rightarrow> Inr (mk_vec n (\<lambda>i. x ! (if length x = 1 then 0 else i)
                                  + y ! (if length y = 1 then 0 else i))))"

definition reshape :: "vec \<Rightarrow> nat \<times> nat \<Rightarrow> error + mat" where
  \<comment> \<open>\<^verbatim>\<open>v.reshape(shape)\<close> with a 2-D shape\<close>
  "reshape v shp =
     (if length v = fst shp * snd shp
      then Inr (mk_mat (fst shp) (snd shp) (\<lambda>i j. v ! (i * snd shp + j)))
      else Inl ShapeMismatch)"

definition shape :: "mat \<Rightarrow> nat \<times> nat" where
  "shape M = (nrows M, ncols M)"

definition hstack :: "mat \<Rightarrow> mat \<Rightarrow> error + mat" where
  "hstack X Y =
     (if nrows X = nrows Y
      then Inr (mk_mat (nrows X) (ncols X + ncols Y)
                 (\<lambda>i j. if j < ncols X then ent X i j else ent Y i (j - ncols X)))
      else Inl ShapeMismatch)"

definition vstack :: "mat \<Rightarrow> mat \<Rightarrow> error + mat" where
  "vstack X Y =
     (if ncols X = ncols Y
      then Inr (mk_mat (nrows X + nrows Y) (ncols X)
                 (\<lambda>i j. if i < nrows X then ent X i j else ent Y (i - nrows X) j))
      else Inl ShapeMismatch)"

definition block :: "error + mat \<Rightarrow> error + mat \<Rightarrow> error + mat \<Rightarrow> error + mat \<Rightarrow> error + mat" where
  \<comment> \<open>\<^verbatim>\<open>np.block([[a, b], [c, d]])\<close>: the four operands are evaluated first, then each inner
      list is joined along the last axis and the two results along the first\<close>
  "block a b c d =
     (case a of Inl e \<Rightarrow> Inl e | Inr a' \<Rightarrow>
      (case b of Inl e \<Rightarrow> Inl e | Inr b' \<Rightarrow>
      (case c of Inl e \<Rightarrow> Inl e | Inr c' \<Rightarrow>
      (case d of Inl e \<Rightarrow> Inl e | Inr d' \<Rightarrow>
        lift2 vstack (hstack a' b') (hstack c' d')))))"

subsection \<open>Linear solves\<close>

text \<open>
  \<^verbatim>\<open>np.linalg.solve\<close> and \<^verbatim>\<open>np.linalg.inv\<close> are numpy's (LAPACK's \<^verbatim>\<open>gesv\<close>), not code of
  this repository. In exact arithmetic they return the unique solution when the matrix is
  nonsingular and raise \<^verbatim>\<open>LinAlgError\<close> otherwise; the model is Gaussian elimination, one
  unknown at a time, on equations kept as pairs of coefficients and right-hand side.
  On doubles LAPACK raises only when a computed pivot is exactly zero, which a singular matrix
  need not produce and a nonsingular one can: \<open>solve\<close> and \<open>inv_m\<close> say what the solution
  is, not when the floating-point routine raises.
\<close>

type_synonym equation = "real list \<times> real"

fun split_pivot :: "equation list \<Rightarrow> (equation \<times> equation list) option" where
  "split_pivot [] = None"
| "split_pivot (e # es) =
     (if hd (fst e) \<noteq> 0 then Some (e, es)
      else (case split_pivot es of None \<Rightarrow> None | Some (p, rest) \<Rightarrow> Some (p, e # rest)))"

definition eliminate :: "equation \<Rightarrow> equation \<Rightarrow> equation" where
  "eliminate p e =
     (let f = hd (fst e) / hd (fst p)
      in (map2 (\<lambda>a b. b - f * a) (tl (fst p)) (tl (fst e)), snd e - f * snd p))"

definition ldot :: "real list \<Rightarrow> real list \<Rightarrow> real" where
  "ldot xs ys = sum_list (map2 (*) xs ys)"

fun gauss :: "nat \<Rightarrow> equation list \<Rightarrow> real list option" where
  "gauss 0 eqs = Some []"
| "gauss (Suc k) eqs =
     (case split_pivot eqs of
        None \<Rightarrow> None
      | Some (p, rest) \<Rightarrow>
          (case gauss k (map (eliminate p) rest) of
             None \<Rightarrow> None
           | Some xs \<Rightarrow> Some ((snd p - ldot (tl (fst p)) xs) / hd (fst p) # xs)))"

definition solve :: "mat \<Rightarrow> vec \<Rightarrow> error + vec" where
  \<comment> \<open>\<^verbatim>\<open>np.linalg.solve(M, b)\<close> with 1-D \<open>b\<close>\<close>
  "solve M b =
     (if nrows M \<noteq> ncols M then Inl NotSquare
      else if length b \<noteq> nrows M then Inl ShapeMismatch
      else (case gauss (nrows M) (zip (rows M) b) of
              None \<Rightarrow> Inl SingularMatrix
            | Some x \<Rightarrow> Inr x))"

definition unit_vec :: "nat \<Rightarrow> nat \<Rightarrow> vec" where
  "unit_vec n j = mk_vec n (\<lambda>i. if i = j then 1 else 0)"

fun those_e :: "(error + 'a) list \<Rightarrow> error + 'a list" where
  "those_e [] = Inr []"
| "those_e (x # xs) =
     (case x of Inl e \<Rightarrow> Inl e
      | Inr a \<Rightarrow> (case those_e xs of Inl e \<Rightarrow> Inl e | Inr as \<Rightarrow> Inr (a # as)))"

definition inv_m :: "mat \<Rightarrow> error + mat" where
  \<comment> \<open>\<^verbatim>\<open>np.linalg.inv(M)\<close>: the solution of \<open>M X = I\<close>, column by column\<close>
  "inv_m M =
     (if nrows M \<noteq> ncols M then Inl NotSquare
      else (case those_e (map (\<lambda>j. solve M (unit_vec (nrows M) j)) [0..<nrows M]) of
              Inl e \<Rightarrow> Inl e
            | Inr cols \<Rightarrow> Inr (mk_mat (nrows M) (nrows M) (\<lambda>i j. cols ! j ! i))))"

section \<open>The solver\<close>

record LQR =
  lqr_A :: mat
  lqr_B :: mat
  lqr_Q :: mat
  lqr_R :: mat
  lqr_gamma :: real

definition lqr_shapes :: "nat \<Rightarrow> nat \<Rightarrow> LQR \<Rightarrow> bool" where
  \<comment> \<open>the problem descriptor's invariant on dimensions: \<open>n\<close> states and \<open>m\<close> actions\<close>
  "lqr_shapes n m lqr =
     (is_mat n n (lqr_A lqr) \<and> is_mat n m (lqr_B lqr) \<and> is_mat n n (lqr_Q lqr) \<and> is_mat m m (lqr_R lqr))"

definition parse_lqr :: "LQR \<Rightarrow> mat \<times> mat \<times> mat \<times> mat \<times> real" where
  "parse_lqr lqr = (lqr_A lqr, lqr_B lqr, lqr_Q lqr, lqr_R lqr, lqr_gamma lqr)"

abbreviation matmul_e :: "error + mat \<Rightarrow> error + mat \<Rightarrow> error + mat" where
  "matmul_e \<equiv> lift2 matmul"

abbreviation add_e :: "error + mat \<Rightarrow> error + mat \<Rightarrow> error + mat" where
  "add_e \<equiv> lift2 add"

abbreviation sub_e :: "error + mat \<Rightarrow> error + mat \<Rightarrow> error + mat" where
  "sub_e \<equiv> lift2 sub"

abbreviation smul_e :: "real \<Rightarrow> error + mat \<Rightarrow> error + mat" where
  "smul_e g \<equiv> map_e (smul g)"

abbreviation T :: "mat \<Rightarrow> error + mat" where
  "T M \<equiv> Inr (transpose_m M)"

definition compute_riccati_rhs ::
  "mat \<Rightarrow> mat \<Rightarrow> mat \<Rightarrow> mat \<Rightarrow> real \<Rightarrow> mat \<Rightarrow> mat \<Rightarrow> error + mat" where
  "compute_riccati_rhs A B Q R gamma K P =
     add_e
       (add_e (Inr Q)
          (smul_e gamma
             (add_e
                (sub_e
                   (sub_e (matmul_e (matmul_e (T A) (Inr P)) (Inr A))
                          (matmul_e (matmul_e (matmul_e (T K) (T B)) (Inr P)) (Inr A)))
                   (matmul_e (matmul_e (matmul_e (T A) (Inr P)) (Inr B)) (Inr K)))
                (matmul_e (matmul_e (matmul_e (matmul_e (T K) (T B)) (Inr P)) (Inr B)) (Inr K)))))
       (matmul_e (matmul_e (T K) (Inr R)) (Inr K))"

definition compute_riccati_gain :: "mat \<Rightarrow> mat \<Rightarrow> mat \<Rightarrow> mat \<Rightarrow> real \<Rightarrow> error + mat" where
  "compute_riccati_gain P A B R gamma =
     matmul_e
       (matmul_e
          (matmul_e
             (smul_e gamma
                (lift1 inv_m
                   (add_e (Inr R)
                      (smul_e gamma (matmul_e (matmul_e (T B) (Inr P)) (Inr B))))))
             (T B))
          (Inr P))
       (Inr A)"

function riccati_loop ::
  "mat \<Rightarrow> mat \<Rightarrow> mat \<Rightarrow> mat \<Rightarrow> real \<Rightarrow> int \<Rightarrow> int \<Rightarrow> mat \<Rightarrow> mat \<Rightarrow> error + mat" where
  "riccati_loop A B Q R gamma max_iterations it P K =
     (if it < max_iterations then
        (case compute_riccati_rhs A B Q R gamma K P of
           Inl e \<Rightarrow> Inl e
         | Inr P' \<Rightarrow>
             (case compute_riccati_gain P' A B R gamma of
                Inl e \<Rightarrow> Inl e
              | Inr K' \<Rightarrow> riccati_loop A B Q R gamma max_iterations (it + 1) P' K'))
      else Inr K)"
  by pat_completeness auto
termination
  by (relation "measure (\<lambda>(A, B, Q, R, gamma, max_iterations, it, P, K). nat (max_iterations - it))")
     auto

definition solve_lqr_linear :: "LQR \<Rightarrow> int \<Rightarrow> error + mat" where
  "solve_lqr_linear lqr max_iterations =
     (case parse_lqr lqr of (A, B, Q, R, gamma) \<Rightarrow>
        (let P = eye (nrows Q) in
         case compute_riccati_gain P A B R gamma of
           Inl e \<Rightarrow> Inl e
         | Inr K \<Rightarrow> riccati_loop A B Q R gamma max_iterations 0 P K))"

definition compute_lqr_intermediate_results ::
  "mat \<Rightarrow> mat \<Rightarrow> mat \<Rightarrow> mat \<Rightarrow> mat \<Rightarrow> real \<Rightarrow> error + (mat \<times> mat)" where
  "compute_lqr_intermediate_results K A B Q R gamma =
     (let size = nrows Q ^ 2 in
      case add_e (Inr Q) (matmul_e (matmul_e (T K) (Inr R)) (Inr K)) of
        Inl e \<Rightarrow> Inl e
      | Inr L \<Rightarrow>
      (case matmul_e (T K) (T B) of
        Inl e \<Rightarrow> Inl e
      | Inr kb \<Rightarrow>
      (case sub_e (Inr (eye size))
             (smul_e gamma
                (add_e
                   (sub_e
                      (sub_e (Inr (kron (transpose_m A) (transpose_m A)))
                             (Inr (kron (transpose_m A) kb)))
                      (Inr (kron kb (transpose_m A))))
                   (Inr (kron kb kb)))) of
        Inl e \<Rightarrow> Inl e
      | Inr M \<Rightarrow> Inr (L, M))))"

definition compute_lqr_P :: "LQR \<Rightarrow> mat \<Rightarrow> error + mat" where
  "compute_lqr_P lqr K =
     (case parse_lqr lqr of (A, B, Q, R, gamma) \<Rightarrow>
      (case compute_lqr_intermediate_results K A B Q R gamma of
        Inl e \<Rightarrow> Inl e
      | Inr (L, M) \<Rightarrow>
      (case solve M (flatten L) of
        Inl e \<Rightarrow> Inl e
      | Inr vec_P \<Rightarrow> reshape vec_P (shape Q))))"

definition quad_form :: "vec \<Rightarrow> mat \<Rightarrow> error + real" where
  \<comment> \<open>\<^verbatim>\<open>-x.T @ P @ x\<close> for a 1-D \<open>x\<close>, whose transpose is \<open>x\<close> itself: \<^verbatim>\<open>((-x) @ P) @ x\<close>\<close>
  "quad_form x P = lift2 vecvec (vecmat (vneg x) P) (Inr x)"

definition compute_lqr_V :: "vec \<Rightarrow> LQR \<Rightarrow> mat \<Rightarrow> error + real" where
  "compute_lqr_V x lqr K =
     (case compute_lqr_P lqr K of
        Inl e \<Rightarrow> Inl e
      | Inr P \<Rightarrow> quad_form x P)"

definition compute_lqg_V :: "vec \<Rightarrow> LQR \<Rightarrow> mat \<Rightarrow> mat \<Rightarrow> error + real" where
  \<comment> \<open>the quotient by \<open>1.0 - gamma\<close> is a numpy scalar division: at \<open>gamma = 1\<close> the
      result is not finite\<close>
  "compute_lqg_V x lqr K Sig =
     (case compute_lqr_P lqr K of
        Inl e \<Rightarrow> Inl e
      | Inr P \<Rightarrow>
      (case parse_lqr lqr of (A, B, Q, R, gamma) \<Rightarrow>
      (case quad_form x P of
        Inl e \<Rightarrow> Inl e
      | Inr v \<Rightarrow>
      (case matmul_e (Inr Sig)
             (add_e (Inr R) (matmul_e (matmul_e (Inr (smul gamma (transpose_m B))) (Inr P)) (Inr B))) of
        Inl e \<Rightarrow> Inl e
      | Inr S \<Rightarrow>
          if 1 - gamma = 0 then Inl NonFinite
          else Inr (v - trace S / (1 - gamma))))))"

definition compute_lqr_Q_matrix :: "LQR \<Rightarrow> mat \<Rightarrow> error + mat" where
  "compute_lqr_Q_matrix lqr K =
     (case parse_lqr lqr of (A, B, Q, R, gamma) \<Rightarrow>
      (case compute_lqr_P lqr K of
        Inl e \<Rightarrow> Inl e
      | Inr P \<Rightarrow>
          block
            (add_e (Inr Q) (matmul_e (matmul_e (Inr (smul gamma (transpose_m A))) (Inr P)) (Inr A)))
            (matmul_e (matmul_e (Inr (smul gamma (transpose_m A))) (Inr P)) (Inr B))
            (matmul_e (matmul_e (Inr (smul gamma (transpose_m B))) (Inr P)) (Inr A))
            (add_e (Inr R) (matmul_e (matmul_e (Inr (smul gamma (transpose_m B))) (Inr P)) (Inr B)))))"

definition compute_lqr_Q :: "vec \<Rightarrow> LQR \<Rightarrow> mat \<Rightarrow> error + real" where
  "compute_lqr_Q x lqr K =
     (case compute_lqr_Q_matrix lqr K of
        Inl e \<Rightarrow> Inl e
      | Inr M \<Rightarrow> quad_form x M)"

definition compute_lqg_Q_additional_term :: "LQR \<Rightarrow> mat \<Rightarrow> mat \<Rightarrow> error + real" where
  \<comment> \<open>\<^verbatim>\<open>gamma/(1-gamma)\<close> is evaluated before the trace; on Python floats it raises
      ZeroDivisionError at \<open>gamma = 1\<close>\<close>
  "compute_lqg_Q_additional_term lqr K Sig =
     (case parse_lqr lqr of (A, B, Q, R, gamma) \<Rightarrow>
      (case compute_lqr_P lqr K of
        Inl e \<Rightarrow> Inl e
      | Inr P \<Rightarrow>
          if 1 - gamma = 0 then Inl ZeroDivision
          else
            (case matmul_e (Inr Sig)
                    (add_e (Inr R)
                       (matmul_e (matmul_e (Inr (smul gamma (transpose_m B))) (Inr P)) (Inr B))) of
               Inl e \<Rightarrow> Inl e
             | Inr S \<Rightarrow> Inr (gamma / (1 - gamma) * trace S))))"

definition compute_lqg_Q :: "vec \<Rightarrow> LQR \<Rightarrow> mat \<Rightarrow> mat \<Rightarrow> error + real" where
  "compute_lqg_Q x lqr K Sig =
     (case compute_lqr_Q_matrix lqr K of
        Inl e \<Rightarrow> Inl e
      | Inr M \<Rightarrow>
      (case compute_lqg_Q_additional_term lqr K Sig of
        Inl e \<Rightarrow> Inl e
      | Inr b \<Rightarrow>
      (case quad_form x M of
        Inl e \<Rightarrow> Inl e
      | Inr v \<Rightarrow> Inr (v - b))))"

definition compute_lqr_intermediate_results_diff ::
  "mat \<Rightarrow> mat \<Rightarrow> mat \<Rightarrow> mat \<Rightarrow> real \<Rightarrow> nat \<Rightarrow> error + (mat \<times> mat)" where
  "compute_lqr_intermediate_results_diff K A B R gamma i =
     (let n_elems = nrows K * ncols K;
          vec_dKi = replicate n_elems 0
      in if \<not> i < n_elems then Inl IndexError
      else
      case reshape (vec_dKi[i := 1]) (shape K) of
        Inl e \<Rightarrow> Inl e
      | Inr dKi \<Rightarrow>
      (case matmul_e (T K) (T B) of
        Inl e \<Rightarrow> Inl e
      | Inr kb \<Rightarrow>
      (case matmul_e (T dKi) (T B) of
        Inl e \<Rightarrow> Inl e
      | Inr dkb \<Rightarrow>
      (case add_e (matmul_e (matmul_e (T dKi) (Inr R)) (Inr K))
                 (matmul_e (matmul_e (T K) (Inr R)) (Inr dKi)) of
        Inl e \<Rightarrow> Inl e
      | Inr dL \<Rightarrow>
      (case smul_e gamma
             (sub_e
                (sub_e
                   (add_e (Inr (kron (transpose_m A) dkb)) (Inr (kron dkb (transpose_m A))))
                   (Inr (kron dkb kb)))
                (Inr (kron kb dkb))) of
        Inl e \<Rightarrow> Inl e
      | Inr dM \<Rightarrow> Inr (dL, dM))))))"

definition gradient_entry ::
  "vec \<Rightarrow> mat \<Rightarrow> mat \<Rightarrow> mat \<Rightarrow> mat \<Rightarrow> mat \<Rightarrow> real \<Rightarrow> mat \<Rightarrow> mat \<Rightarrow> mat \<Rightarrow> mat \<Rightarrow> nat
     \<Rightarrow> error + real" where
  \<comment> \<open>the body of the loop of \<^verbatim>\<open>compute_lqg_gradient\<close>: the value stored in \<^verbatim>\<open>dJ[i]\<close>; the
      quotient by \<open>1.0 - gamma\<close> is a numpy scalar division, as in \<^verbatim>\<open>compute_lqg_V\<close>\<close>
  "gradient_entry x K A B Q R gamma Sig L M Minv i =
     (case compute_lqr_intermediate_results_diff K A B R gamma i of
        Inl e \<Rightarrow> Inl e
      | Inr (dLi, dMi) \<Rightarrow>
      (case lift2 vadd
             (lift2 matvec (matmul_e (matmul_e (Inr (mneg Minv)) (Inr dMi)) (Inr Minv))
                (Inr (flatten L)))
             (solve M (flatten dLi)) of
        Inl e \<Rightarrow> Inl e
      | Inr vec_dPi \<Rightarrow>
      (case reshape vec_dPi (shape Q) of
        Inl e \<Rightarrow> Inl e
      | Inr dPi \<Rightarrow>
      (case lift2 vecvec (vecmat x dPi) (Inr x) of
        Inl e \<Rightarrow> Inl e
      | Inr v \<Rightarrow>
      (case matmul_e (matmul_e (matmul_e (Inr Sig) (T B)) (Inr dPi)) (Inr B) of
        Inl e \<Rightarrow> Inl e
      | Inr S \<Rightarrow>
          if 1 - gamma = 0 then Inl NonFinite
          else Inr (v + gamma * trace S / (1 - gamma)))))))"

fun gradient_loop ::
  "vec \<Rightarrow> mat \<Rightarrow> mat \<Rightarrow> mat \<Rightarrow> mat \<Rightarrow> mat \<Rightarrow> real \<Rightarrow> mat \<Rightarrow> mat \<Rightarrow> mat \<Rightarrow> mat
     \<Rightarrow> nat list \<Rightarrow> vec \<Rightarrow> error + vec" where
  "gradient_loop x K A B Q R gamma Sig L M Minv [] dJ = Inr dJ"
| "gradient_loop x K A B Q R gamma Sig L M Minv (i # is) dJ =
     (case gradient_entry x K A B Q R gamma Sig L M Minv i of
        Inl e \<Rightarrow> Inl e
      | Inr v \<Rightarrow> gradient_loop x K A B Q R gamma Sig L M Minv is (dJ[i := v]))"

definition compute_lqg_gradient :: "vec \<Rightarrow> LQR \<Rightarrow> mat \<Rightarrow> mat \<Rightarrow> error + vec" where
  "compute_lqg_gradient x lqr K Sig =
     (case parse_lqr lqr of (A, B, Q, R, gamma) \<Rightarrow>
      (case compute_lqr_intermediate_results K A B Q R gamma of
        Inl e \<Rightarrow> Inl e
      | Inr (L, M) \<Rightarrow>
      (case inv_m M of
        Inl e \<Rightarrow> Inl e
      | Inr Minv \<Rightarrow>
          (let n_elems = nrows K * ncols K;
               dJ = replicate n_elems 0
           in map_e vneg (gradient_loop x K A B Q R gamma Sig L M Minv [0..<n_elems] dJ)))))"

section \<open>The formulas of the specification\<close>

text \<open>
  The claims compare the solver with formulas. The formulas are written here with the
  operations on arrays of fitting shapes, which cannot raise; the solver is compared with
  them under the hypothesis that the shapes fit.
\<close>

subsection \<open>Vectors and solution sets\<close>

definition vplus :: "vec \<Rightarrow> vec \<Rightarrow> vec" where
  "vplus x y = mk_vec (length x) (\<lambda>i. x ! i + y ! i)"

definition vminus :: "vec \<Rightarrow> vec \<Rightarrow> vec" where
  "vminus x y = mk_vec (length x) (\<lambda>i. x ! i - y ! i)"

definition vscale :: "real \<Rightarrow> vec \<Rightarrow> vec" where
  "vscale g x = mk_vec (length x) (\<lambda>i. g * x ! i)"

definition sat :: "equation list \<Rightarrow> real list \<Rightarrow> bool" where
  "sat eqs xs = list_all (\<lambda>e. ldot (fst e) xs = snd e) eqs"

definition nonsingular :: "mat \<Rightarrow> bool" where
  "nonsingular M =
     (\<forall>y. length y = ncols M \<longrightarrow> mvmul M y = replicate (nrows M) 0 \<longrightarrow> y = replicate (ncols M) 0)"

definition symmetric :: "mat \<Rightarrow> bool" where
  "symmetric X = (transpose_m X = X)"

definition bil :: "vec \<Rightarrow> mat \<Rightarrow> vec \<Rightarrow> real" where
  \<comment> \<open>the bilinear form \<open>x\<^sup>T M y\<close>\<close>
  "bil x M y = (\<Sum>i<nrows M. \<Sum>j<ncols M. x ! i * ent M i j * y ! j)"

definition block_m :: "mat \<Rightarrow> mat \<Rightarrow> mat \<Rightarrow> mat \<Rightarrow> mat" where
  \<comment> \<open>what \<open>block\<close> computes on blocks that fit\<close>
  "block_m a b c d =
     mk_mat (nrows a + nrows c) (ncols a + ncols b)
       (\<lambda>i j. if i < nrows a
               then (if j < ncols a then ent a i j else ent b i (j - ncols a))
               else (if j < ncols c then ent c (i - nrows a) j
                     else ent d (i - nrows a) (j - ncols c)))"

subsection \<open>The value matrix\<close>

definition lyap_L :: "LQR \<Rightarrow> mat \<Rightarrow> mat" where
  \<comment> \<open>\<open>L = Q + K\<^sup>T R K\<close>\<close>
  "lyap_L lqr K = madd (lqr_Q lqr) (mmul (mmul (transpose_m K) (lqr_R lqr)) K)"

definition system_matrix :: "LQR \<Rightarrow> mat \<Rightarrow> mat" where
  \<comment> \<open>\<open>M = I - gamma * (kron(A\<^sup>T, A\<^sup>T) - kron(A\<^sup>T, K\<^sup>T B\<^sup>T) - kron(K\<^sup>T B\<^sup>T, A\<^sup>T)
      + kron(K\<^sup>T B\<^sup>T, K\<^sup>T B\<^sup>T))\<close>\<close>
  "system_matrix lqr K =
     (let At = transpose_m (lqr_A lqr);
          kb = mmul (transpose_m K) (transpose_m (lqr_B lqr))
      in msub (eye (nrows (lqr_Q lqr) ^ 2))
           (smul (lqr_gamma lqr)
              (madd (msub (msub (kron At At) (kron At kb)) (kron kb At)) (kron kb kb))))"

definition closed_loop :: "LQR \<Rightarrow> mat \<Rightarrow> mat" where
  \<comment> \<open>\<open>A - B K\<close>\<close>
  "closed_loop lqr K = msub (lqr_A lqr) (mmul (lqr_B lqr) K)"

definition lyapunov_rhs :: "LQR \<Rightarrow> mat \<Rightarrow> mat \<Rightarrow> mat" where
  \<comment> \<open>\<open>Q + K\<^sup>T R K + gamma * (A - B K)\<^sup>T P (A - B K)\<close>\<close>
  "lyapunov_rhs lqr K P =
     madd (lyap_L lqr K)
       (smul (lqr_gamma lqr)
          (mmul (mmul (transpose_m (closed_loop lqr K)) P) (closed_loop lqr K)))"

definition policy_action :: "mat \<Rightarrow> vec \<Rightarrow> vec" where
  \<comment> \<open>\<open>u = -K x\<close>\<close>
  "policy_action K x = vneg (mvmul K x)"

definition Q_matrix :: "LQR \<Rightarrow> mat \<Rightarrow> mat" where
  \<comment> \<open>the block matrix \<open>[[Q + gamma A\<^sup>T P A, gamma A\<^sup>T P B], [gamma B\<^sup>T P A, R + gamma B\<^sup>T P B]]\<close>\<close>
  "Q_matrix lqr P =
     (let A = lqr_A lqr; B = lqr_B lqr;
          gAt = smul (lqr_gamma lqr) (transpose_m A); gBt = smul (lqr_gamma lqr) (transpose_m B)
      in block_m (madd (lqr_Q lqr) (mmul (mmul gAt P) A)) (mmul (mmul gAt P) B)
                 (mmul (mmul gBt P) A) (madd (lqr_R lqr) (mmul (mmul gBt P) B)))"

subsection \<open>The Riccati iteration\<close>

definition gain_matrix :: "LQR \<Rightarrow> mat \<Rightarrow> mat" where
  \<comment> \<open>\<open>R + gamma * B\<^sup>T P B\<close>, the matrix that the gain step inverts\<close>
  "gain_matrix lqr P =
     madd (lqr_R lqr)
       (smul (lqr_gamma lqr) (mmul (mmul (transpose_m (lqr_B lqr)) P) (lqr_B lqr)))"

definition riccati_gain :: "LQR \<Rightarrow> mat \<Rightarrow> error + mat" where
  \<comment> \<open>\<open>K = gamma * (R + gamma * B\<^sup>T P B)\<^sup>-\<^sup>1 B\<^sup>T P A\<close>\<close>
  "riccati_gain lqr P =
     map_e (\<lambda>Ri. mmul (mmul (mmul (smul (lqr_gamma lqr) Ri) (transpose_m (lqr_B lqr))) P) (lqr_A lqr))
       (inv_m (gain_matrix lqr P))"

definition riccati_rhs :: "LQR \<Rightarrow> mat \<Rightarrow> mat \<Rightarrow> mat" where
  \<comment> \<open>\<open>P' = Q + gamma * (A\<^sup>T P A - K\<^sup>T B\<^sup>T P A - A\<^sup>T P B K + K\<^sup>T B\<^sup>T P B K) + K\<^sup>T R K\<close>\<close>
  "riccati_rhs lqr K P =
     (let A = lqr_A lqr; B = lqr_B lqr; At = transpose_m A; Bt = transpose_m B;
          Kt = transpose_m K
      in madd
           (madd (lqr_Q lqr)
              (smul (lqr_gamma lqr)
                 (madd
                    (msub (msub (mmul (mmul At P) A) (mmul (mmul (mmul Kt Bt) P) A))
                          (mmul (mmul (mmul At P) B) K))
                    (mmul (mmul (mmul (mmul Kt Bt) P) B) K))))
           (mmul (mmul Kt (lqr_R lqr)) K))"

fun riccati_iterate :: "nat \<Rightarrow> LQR \<Rightarrow> mat \<Rightarrow> error + mat" where
  "riccati_iterate 0 lqr P = Inr P"
| "riccati_iterate (Suc k) lqr P =
     (case riccati_gain lqr P of
        Inl e \<Rightarrow> Inl e
      | Inr K \<Rightarrow> riccati_iterate k lqr (riccati_rhs lqr K P))"

definition riccati_solution :: "nat \<Rightarrow> LQR \<Rightarrow> error + mat" where
  \<comment> \<open>\<open>k\<close> updates from \<open>P\<^sub>0 = I\<close>, then the gain of the last \<open>P\<close>\<close>
  "riccati_solution k lqr =
     (case riccati_iterate k lqr (eye (nrows (lqr_Q lqr))) of
        Inl e \<Rightarrow> Inl e
      | Inr P \<Rightarrow> riccati_gain lqr P)"

fun riccati_nonsingular :: "nat \<Rightarrow> LQR \<Rightarrow> mat \<Rightarrow> bool" where
  \<comment> \<open>every matrix \<open>R + gamma * B\<^sup>T P B\<close> that \<open>k\<close> updates from \<open>P\<close> and the final gain invert
      is nonsingular\<close>
  "riccati_nonsingular 0 lqr P = nonsingular (gain_matrix lqr P)"
| "riccati_nonsingular (Suc k) lqr P =
     (nonsingular (gain_matrix lqr P) \<and>
      (case riccati_gain lqr P of
         Inl e \<Rightarrow> True
       | Inr K \<Rightarrow> riccati_nonsingular k lqr (riccati_rhs lqr K P)))"

subsection \<open>The gradient\<close>

definition one_hot :: "nat \<Rightarrow> nat \<Rightarrow> nat \<Rightarrow> mat" where
  \<comment> \<open>\<open>dK\<^sub>i\<close>: the \<open>m\<close> by \<open>n\<close> matrix with a 1 at entry \<open>i\<close> in row-major order, 0 elsewhere\<close>
  "one_hot m n i = mk_mat m n (\<lambda>r c. if r * n + c = i then 1 else 0)"

definition dL_i :: "LQR \<Rightarrow> mat \<Rightarrow> nat \<Rightarrow> mat" where
  \<comment> \<open>\<open>dL\<^sub>i = dK\<^sub>i\<^sup>T R K + K\<^sup>T R dK\<^sub>i\<close>\<close>
  "dL_i lqr K i =
     (let dK = one_hot (nrows K) (ncols K) i
      in madd (mmul (mmul (transpose_m dK) (lqr_R lqr)) K)
              (mmul (mmul (transpose_m K) (lqr_R lqr)) dK))"

definition dM_i :: "LQR \<Rightarrow> mat \<Rightarrow> nat \<Rightarrow> mat" where
  \<comment> \<open>\<open>dM\<^sub>i = gamma * (kron(A\<^sup>T, dK\<^sub>i\<^sup>T B\<^sup>T) + kron(dK\<^sub>i\<^sup>T B\<^sup>T, A\<^sup>T)
      - kron(dK\<^sub>i\<^sup>T B\<^sup>T, K\<^sup>T B\<^sup>T) - kron(K\<^sup>T B\<^sup>T, dK\<^sub>i\<^sup>T B\<^sup>T))\<close>\<close>
  "dM_i lqr K i =
     (let dK = one_hot (nrows K) (ncols K) i;
          At = transpose_m (lqr_A lqr);
          kb = mmul (transpose_m K) (transpose_m (lqr_B lqr));
          dkb = mmul (transpose_m dK) (transpose_m (lqr_B lqr))
      in smul (lqr_gamma lqr)
           (msub (msub (madd (kron At dkb) (kron dkb At)) (kron dkb kb)) (kron kb dkb)))"

definition vec_dP_i :: "LQR \<Rightarrow> mat \<Rightarrow> mat \<Rightarrow> nat \<Rightarrow> vec" where
  \<comment> \<open>\<open>vec(dP\<^sub>i) = -M\<^sup>-\<^sup>1 dM\<^sub>i M\<^sup>-\<^sup>1 vec(L) + M\<^sup>-\<^sup>1 vec(dL\<^sub>i)\<close>, with \<open>Minv\<close> for \<open>M\<^sup>-\<^sup>1\<close>\<close>
  "vec_dP_i lqr K Minv i =
     vplus (mvmul (mmul (mmul (mneg Minv) (dM_i lqr K i)) Minv) (flatten (lyap_L lqr K)))
           (mvmul Minv (flatten (dL_i lqr K i)))"

definition dP_i :: "LQR \<Rightarrow> mat \<Rightarrow> mat \<Rightarrow> nat \<Rightarrow> mat" where
  "dP_i lqr K Minv i =
     (let n = nrows (lqr_Q lqr)
      in mk_mat n (ncols (lqr_Q lqr)) (\<lambda>r c. vec_dP_i lqr K Minv i ! (r * ncols (lqr_Q lqr) + c)))"

definition dJ_i :: "vec \<Rightarrow> LQR \<Rightarrow> mat \<Rightarrow> mat \<Rightarrow> mat \<Rightarrow> nat \<Rightarrow> real" where
  \<comment> \<open>\<open>x\<^sup>T dP\<^sub>i x + gamma * trace(Sigma B\<^sup>T dP\<^sub>i B) / (1 - gamma)\<close>\<close>
  "dJ_i x lqr K Sig Minv i =
     bil x (dP_i lqr K Minv i) x
     + lqr_gamma lqr
       * trace (mmul (mmul (mmul Sig (transpose_m (lqr_B lqr))) (dP_i lqr K Minv i)) (lqr_B lqr))
       / (1 - lqr_gamma lqr)"

section \<open>Worked instances\<close>

text \<open>
  A double integrator with two states and one action, discount \<open>1/2\<close>, and a gain that is
  not the optimal one; the values below are what the solver computes on it. Then a problem
  on which every solve is singular, and two problems whose \<open>Q\<close> has the wrong shape.
\<close>

definition ex_lqr :: LQR where
  "ex_lqr = \<lparr>lqr_A = \<lparr>nrows = 2, ncols = 2, rows = [[1, 1], [0, 1]]\<rparr>,
             lqr_B = \<lparr>nrows = 2, ncols = 1, rows = [[0], [1]]\<rparr>,
             lqr_Q = \<lparr>nrows = 2, ncols = 2, rows = [[1, 0], [0, 1]]\<rparr>,
             lqr_R = \<lparr>nrows = 1, ncols = 1, rows = [[1]]\<rparr>,
             lqr_gamma = 1 / 2\<rparr>"

definition ex_K :: mat where
  "ex_K = \<lparr>nrows = 1, ncols = 2, rows = [[1 / 2, 1]]\<rparr>"

definition ex_L :: mat where
  "ex_L = \<lparr>nrows = 2, ncols = 2, rows = [[5 / 4, 1 / 2], [1 / 2, 2]]\<rparr>"

definition ex_M :: mat where
  "ex_M = \<lparr>nrows = 4, ncols = 4,
            rows = [[1 / 2, 1 / 4, 1 / 4, - (1 / 8)], [- (1 / 2), 1, 1 / 4, 0],
                    [- (1 / 2), 1 / 4, 1, 0], [- (1 / 2), 0, 0, 1]]\<rparr>"

definition ex_P :: mat where
  "ex_P = \<lparr>nrows = 2, ncols = 2, rows = [[104 / 51, 62 / 51], [62 / 51, 154 / 51]]\<rparr>"

definition ex_MQ :: mat where
  "ex_MQ = \<lparr>nrows = 3, ncols = 3,
             rows = [[103 / 51, 83 / 51, 31 / 51], [83 / 51, 242 / 51, 36 / 17],
                     [31 / 51, 36 / 17, 128 / 51]]\<rparr>"

definition ex_Ri :: mat where
  "ex_Ri = \<lparr>nrows = 1, ncols = 1, rows = [[2 / 3]]\<rparr>"

definition ex_K0 :: mat where
  "ex_K0 = \<lparr>nrows = 1, ncols = 2, rows = [[0, 1 / 3]]\<rparr>"

definition ex_P1 :: mat where
  "ex_P1 = \<lparr>nrows = 2, ncols = 2, rows = [[3 / 2, 1 / 2], [1 / 2, 11 / 6]]\<rparr>"

definition ex_K1 :: mat where
  "ex_K1 = \<lparr>nrows = 1, ncols = 2, rows = [[3 / 23, 14 / 23]]\<rparr>"

definition ex_Sig :: mat where
  "ex_Sig = \<lparr>nrows = 1, ncols = 1, rows = [[1 / 10]]\<rparr>"

definition ex_Minv :: mat where
  "ex_Minv = \<lparr>nrows = 4, ncols = 4,
               rows = [[80 / 51, - (16 / 51), - (16 / 51), 10 / 51],
                       [32 / 51, 16 / 17, - (20 / 51), 4 / 51],
                       [32 / 51, - (20 / 51), 16 / 17, 4 / 51],
                       [40 / 51, - (8 / 51), - (8 / 51), 56 / 51]]\<rparr>"

definition ex_singular :: LQR where
  \<comment> \<open>a problem on which both the gain step and the value solve are singular\<close>
  "ex_singular = \<lparr>lqr_A = \<lparr>nrows = 1, ncols = 1, rows = [[2]]\<rparr>,
                  lqr_B = \<lparr>nrows = 1, ncols = 1, rows = [[0]]\<rparr>,
                  lqr_Q = \<lparr>nrows = 1, ncols = 1, rows = [[1]]\<rparr>,
                  lqr_R = \<lparr>nrows = 1, ncols = 1, rows = [[0]]\<rparr>,
                  lqr_gamma = 1 / 4\<rparr>"

definition ex_K_zero :: mat where
  "ex_K_zero = \<lparr>nrows = 1, ncols = 1, rows = [[0]]\<rparr>"

definition ex_wide_Q :: LQR where
  \<comment> \<open>the worked instance with a 2 by 3 matrix in place of \<open>Q\<close>\<close>
  "ex_wide_Q = ex_lqr\<lparr>lqr_Q := \<lparr>nrows = 2, ncols = 3, rows = [[1, 0, 0], [0, 1, 0]]\<rparr>\<rparr>"

definition ex_small_Q :: LQR where
  \<comment> \<open>the worked instance with a 1 by 1 matrix in place of \<open>Q\<close>\<close>
  "ex_small_Q = ex_lqr\<lparr>lqr_Q := \<lparr>nrows = 1, ncols = 1, rows = [[1]]\<rparr>\<rparr>"

section \<open>Arrays: shapes and entries\<close>

lemma lift1_simps [simp]: "lift1 f (Inl e) = Inl e" "lift1 f (Inr a) = f a"
  by (simp_all add: lift1_def)

lemma lift2_simps [simp]:
  "lift2 f (Inl e) y = Inl e" "lift2 f (Inr a) (Inl e) = Inl e" "lift2 f (Inr a) (Inr b) = f a b"
  by (simp_all add: lift2_def)

lemma map_e_simps [simp]: "map_e f (Inl e) = Inl e" "map_e f (Inr a) = Inr (f a)"
  by (simp_all add: map_e_def)

lemma nrows_mk_mat [simp]: "nrows (mk_mat r c f) = r"
  and ncols_mk_mat [simp]: "ncols (mk_mat r c f) = c"
  and wf_mk_mat [simp]: "wf_mat (mk_mat r c f)"
  by (simp_all add: mk_mat_def wf_mat_def list_all_iff)

lemma ent_mk_mat [simp]: "i < r \<Longrightarrow> j < c \<Longrightarrow> ent (mk_mat r c f) i j = f i j"
  by (simp add: mk_mat_def ent_def)

lemma mk_mat_cong: "(\<And>i j. i < r \<Longrightarrow> j < c \<Longrightarrow> f i j = g i j) \<Longrightarrow> mk_mat r c f = mk_mat r c g"
  by (simp add: mk_mat_def)

lemma mk_mat_ent: "wf_mat X \<Longrightarrow> mk_mat (nrows X) (ncols X) (ent X) = X"
proof -
  assume wf: "wf_mat X"
  have "map (\<lambda>i. map (ent X i) [0..<ncols X]) [0..<nrows X] = rows X"
  proof (rule nth_equalityI)
    show "length (map (\<lambda>i. map (ent X i) [0..<ncols X]) [0..<nrows X]) = length (rows X)"
      using wf by (simp add: wf_mat_def)
  next
    fix i assume "i < length (map (\<lambda>i. map (ent X i) [0..<ncols X]) [0..<nrows X])"
    then have i: "i < nrows X" by simp
    then have len: "length (rows X ! i) = ncols X"
      using wf by (simp add: wf_mat_def list_all_length)
    have "map (ent X i) [0..<ncols X] = rows X ! i"
      by (rule nth_equalityI) (simp_all add: len ent_def)
    with i show "map (\<lambda>i. map (ent X i) [0..<ncols X]) [0..<nrows X] ! i = rows X ! i"
      by simp
  qed
  then show ?thesis by (simp add: mk_mat_def)
qed

lemma mat_eqI:
  assumes "wf_mat X" "wf_mat Y" "nrows X = nrows Y" "ncols X = ncols Y"
    and "\<And>i j. i < nrows X \<Longrightarrow> j < ncols X \<Longrightarrow> ent X i j = ent Y i j"
  shows "X = Y"
proof -
  have "mk_mat (nrows X) (ncols X) (ent X) = mk_mat (nrows X) (ncols X) (ent Y)"
    by (rule mk_mat_cong) (rule assms(5))
  also have "\<dots> = mk_mat (nrows Y) (ncols Y) (ent Y)"
    by (simp add: assms(3,4))
  finally show ?thesis
    by (simp add: mk_mat_ent assms(1,2))
qed

lemma length_mk_vec [simp]: "length (mk_vec n f) = n"
  and nth_mk_vec [simp]: "i < n \<Longrightarrow> mk_vec n f ! i = f i"
  by (simp_all add: mk_vec_def)

lemma mk_vec_cong: "(\<And>i. i < n \<Longrightarrow> f i = g i) \<Longrightarrow> mk_vec n f = mk_vec n g"
  by (simp add: mk_vec_def)

lemma mk_vec_nth: "length v = n \<Longrightarrow> mk_vec n (\<lambda>i. v ! i) = v"
  by (auto simp: mk_vec_def intro: nth_equalityI)

lemma is_matD: "is_mat r c M \<Longrightarrow> wf_mat M" "is_mat r c M \<Longrightarrow> nrows M = r" "is_mat r c M \<Longrightarrow> ncols M = c"
  by (simp_all add: is_mat_def)

lemma is_mat_mk_mat [simp]: "is_mat r c (mk_mat r' c' f) \<longleftrightarrow> r' = r \<and> c' = c"
  by (auto simp: is_mat_def)

lemma dims_simps [simp]:
  "nrows (transpose_m M) = ncols M" "ncols (transpose_m M) = nrows M"
  "nrows (smul g M) = nrows M" "ncols (smul g M) = ncols M"
  "nrows (mneg M) = nrows M" "ncols (mneg M) = ncols M"
  "nrows (eye n) = n" "ncols (eye n) = n"
  "nrows (zeros r c) = r" "ncols (zeros r c) = c"
  "nrows (kron X Y) = nrows X * nrows Y" "ncols (kron X Y) = ncols X * ncols Y"
  "nrows (mmul X Y) = nrows X" "ncols (mmul X Y) = ncols Y"
  "nrows (madd X Y) = nrows X" "ncols (madd X Y) = ncols X"
  "nrows (msub X Y) = nrows X" "ncols (msub X Y) = ncols X"
  by (simp_all add: transpose_m_def smul_def mneg_def eye_def zeros_def kron_def mmul_def
      madd_def msub_def)

lemma wf_simps [simp]:
  "wf_mat (transpose_m M)" "wf_mat (smul g M)" "wf_mat (mneg M)" "wf_mat (eye n)"
  "wf_mat (zeros r c)" "wf_mat (kron X Y)" "wf_mat (mmul X Y)" "wf_mat (madd X Y)"
  "wf_mat (msub X Y)"
  by (simp_all add: transpose_m_def smul_def mneg_def eye_def zeros_def kron_def mmul_def
      madd_def msub_def)

lemma ent_transpose [simp]: "i < ncols M \<Longrightarrow> j < nrows M \<Longrightarrow> ent (transpose_m M) i j = ent M j i"
  by (simp add: transpose_m_def)

lemma ent_smul [simp]: "i < nrows M \<Longrightarrow> j < ncols M \<Longrightarrow> ent (smul g M) i j = g * ent M i j"
  by (simp add: smul_def)

lemma ent_mneg [simp]: "i < nrows M \<Longrightarrow> j < ncols M \<Longrightarrow> ent (mneg M) i j = - ent M i j"
  by (simp add: mneg_def)

lemma ent_eye [simp]: "i < n \<Longrightarrow> j < n \<Longrightarrow> ent (eye n) i j = (if i = j then 1 else 0)"
  by (simp add: eye_def)

lemma ent_zeros [simp]: "i < r \<Longrightarrow> j < c \<Longrightarrow> ent (zeros r c) i j = 0"
  by (simp add: zeros_def)

lemma ent_mmul [simp]:
  "i < nrows X \<Longrightarrow> j < ncols Y \<Longrightarrow> ent (mmul X Y) i j = (\<Sum>k<ncols X. ent X i k * ent Y k j)"
  by (simp add: mmul_def)

lemma ent_madd [simp]:
  "i < nrows X \<Longrightarrow> j < ncols X \<Longrightarrow> ent (madd X Y) i j = ent X i j + ent Y i j"
  by (simp add: madd_def)

lemma ent_msub [simp]:
  "i < nrows X \<Longrightarrow> j < ncols X \<Longrightarrow> ent (msub X Y) i j = ent X i j - ent Y i j"
  by (simp add: msub_def)

lemma binop_same_shape:
  "nrows X = nrows Y \<Longrightarrow> ncols X = ncols Y \<Longrightarrow>
   binop f X Y = Inr (mk_mat (nrows X) (ncols X) (\<lambda>i j. f (ent X i j) (ent Y i j)))"
  unfolding binop_def bc_dim_def
  by (auto intro!: mk_mat_cong simp: bc_ent_def)

lemma add_same_shape: "nrows X = nrows Y \<Longrightarrow> ncols X = ncols Y \<Longrightarrow> add X Y = Inr (madd X Y)"
  by (simp add: add_def madd_def binop_same_shape)

lemma sub_same_shape: "nrows X = nrows Y \<Longrightarrow> ncols X = ncols Y \<Longrightarrow> sub X Y = Inr (msub X Y)"
  by (simp add: sub_def msub_def binop_same_shape)

lemma matmul_fits: "ncols X = nrows Y \<Longrightarrow> matmul X Y = Inr (mmul X Y)"
  by (simp add: matmul_def)

lemma reshape_Inr:
  "reshape v shp = Inr P \<Longrightarrow> wf_mat P \<and> nrows P = fst shp \<and> ncols P = snd shp"
  by (auto simp: reshape_def split: if_splits)

lemma compute_lqr_P_shape:
  "compute_lqr_P lqr K = Inr P \<Longrightarrow>
   wf_mat P \<and> nrows P = nrows (lqr_Q lqr) \<and> ncols P = ncols (lqr_Q lqr)"
  by (auto simp: compute_lqr_P_def parse_lqr_def shape_def split: sum.splits prod.splits
      dest!: reshape_Inr)

lemma trace_mmul_zeros: "trace (mmul (zeros r c) X) = 0"
  by (simp add: trace_def)

section \<open>Zero noise, in exact arithmetic\<close>

text \<open>
  In exact arithmetic, on a problem of consistent dimensions with \<open>gamma \<noteq> 1\<close>, the
  stochastic state value at the zero covariance matrix is the deterministic state value: the
  trace term vanishes. On doubles the term is \<open>0 * (R + gamma * B\<^sup>T P B)\<close>, which is a NaN
  when the second factor has overflowed, so this says nothing about the doubles returned.
\<close>

lemma lqg_V_zero_noise:
  assumes "lqr_shapes n m lqr" "lqr_gamma lqr \<noteq> 1"
  shows "compute_lqg_V x lqr K (zeros m m) = compute_lqr_V x lqr K"
proof (cases "compute_lqr_P lqr K")
  case (Inl e)
  then show ?thesis by (simp add: compute_lqg_V_def compute_lqr_V_def)
next
  case (Inr P)
  from compute_lqr_P_shape [OF Inr] assms(1)
  have P: "nrows P = n" "ncols P = n" by (simp_all add: lqr_shapes_def is_mat_def)
  from assms(1) have "ncols (lqr_B lqr) = m" "nrows (lqr_B lqr) = n"
    "nrows (lqr_R lqr) = m" "ncols (lqr_R lqr) = m"
    by (simp_all add: lqr_shapes_def is_mat_def)
  then show ?thesis
    using assms(2) P
    by (simp add: compute_lqg_V_def compute_lqr_V_def Inr parse_lqr_def
        matmul_fits add_same_shape trace_mmul_zeros split: sum.splits)
qed

lemma ex_intermediate:
  "compute_lqr_intermediate_results ex_K (lqr_A ex_lqr) (lqr_B ex_lqr) (lqr_Q ex_lqr)
     (lqr_R ex_lqr) (lqr_gamma ex_lqr) = Inr (ex_L, ex_M)"
  by code_simp

lemma ex_solve: "solve ex_M (flatten ex_L) = Inr [104 / 51, 62 / 51, 62 / 51, 154 / 51]"
  by code_simp

lemma ex_reshape:
  "reshape [104 / 51, 62 / 51, 62 / 51, 154 / 51] (shape (lqr_Q ex_lqr)) = Inr ex_P"
  by code_simp

lemma ex_compute_lqr_P: "compute_lqr_P ex_lqr ex_K = Inr ex_P"
  by (simp add: compute_lqr_P_def parse_lqr_def ex_intermediate ex_solve ex_reshape)

lemma ex_quad_form: "quad_form [1, 2] ex_P = Inr (- (968 / 51))"
  by code_simp

lemma ex_compute_lqr_V: "compute_lqr_V [1, 2] ex_lqr ex_K = Inr (- (968 / 51))"
  by (simp add: compute_lqr_V_def ex_compute_lqr_P ex_quad_form)

lemma ex_shapes: "lqr_shapes 2 1 ex_lqr"
  by code_simp

lemma ex_gamma: "lqr_gamma ex_lqr \<noteq> 1"
  by code_simp

lemma lqg_V_zero_noise_instance:
  "lqr_shapes 2 1 ex_lqr \<and> lqr_gamma ex_lqr \<noteq> 1 \<and>
   compute_lqg_V [1, 2] ex_lqr ex_K (zeros 1 1) = Inr (- (968 / 51)) \<and>
   compute_lqr_V [1, 2] ex_lqr ex_K = Inr (- (968 / 51))"
  using lqg_V_zero_noise [OF ex_shapes ex_gamma, of "[1, 2]" ex_K] ex_shapes ex_gamma
  by (simp add: ex_compute_lqr_V)

lemma compute_lqr_Q_matrix_Inl:
  "compute_lqr_P lqr K = Inl e \<Longrightarrow> compute_lqr_Q_matrix lqr K = Inl e"
  by (simp add: compute_lqr_Q_matrix_def parse_lqr_def)

lemma compute_lqr_Q_matrix_Inr:
  "compute_lqr_Q_matrix lqr K = Inr M \<Longrightarrow> \<exists>P. compute_lqr_P lqr K = Inr P"
  by (cases "compute_lqr_P lqr K") (simp_all add: compute_lqr_Q_matrix_Inl)

lemma additional_term_zero_noise:
  assumes "lqr_shapes n m lqr" "lqr_gamma lqr \<noteq> 1" "compute_lqr_P lqr K = Inr P"
  shows "compute_lqg_Q_additional_term lqr K (zeros m m) = Inr 0"
proof -
  from compute_lqr_P_shape [OF assms(3)] assms(1)
  have P: "nrows P = n" "ncols P = n" by (simp_all add: lqr_shapes_def is_mat_def)
  from assms(1) have "ncols (lqr_B lqr) = m" "nrows (lqr_B lqr) = n"
    "nrows (lqr_R lqr) = m" "ncols (lqr_R lqr) = m"
    by (simp_all add: lqr_shapes_def is_mat_def)
  then show ?thesis
    using assms(2) P
    by (simp add: compute_lqg_Q_additional_term_def assms(3) parse_lqr_def
        matmul_fits add_same_shape trace_mmul_zeros)
qed

text \<open>
  In exact arithmetic, on a problem of consistent dimensions with \<open>gamma \<noteq> 1\<close>, the
  stochastic action value at the zero covariance matrix is the deterministic action value:
  the additional term is zero. As for the state value, this says nothing about the doubles
  returned.
\<close>

lemma lqg_Q_zero_noise:
  assumes "lqr_shapes n m lqr" "lqr_gamma lqr \<noteq> 1"
  shows "compute_lqg_Q z lqr K (zeros m m) = compute_lqr_Q z lqr K"
proof (cases "compute_lqr_Q_matrix lqr K")
  case (Inl e)
  then show ?thesis by (simp add: compute_lqg_Q_def compute_lqr_Q_def)
next
  case (Inr M)
  then obtain P where "compute_lqr_P lqr K = Inr P"
    using compute_lqr_Q_matrix_Inr by blast
  then have "compute_lqg_Q_additional_term lqr K (zeros m m) = Inr 0"
    by (rule additional_term_zero_noise [OF assms])
  then show ?thesis
    by (simp add: compute_lqg_Q_def compute_lqr_Q_def Inr split: sum.splits)
qed

section \<open>Gaussian elimination\<close>

lemma ldot_Nil [simp]: "ldot [] ys = 0" "ldot xs [] = 0"
  by (simp_all add: ldot_def)

lemma ldot_Cons [simp]: "ldot (a # as) (x # xs) = a * x + ldot as xs"
  by (simp add: ldot_def)

lemma ldot_replicate_0 [simp]: "ldot xs (replicate n 0) = 0"
proof (induction xs arbitrary: n)
  case Nil
  show ?case by simp
next
  case (Cons a xs)
  show ?case by (cases n) (simp_all add: Cons.IH)
qed

lemma ldot_sum: "length xs = length ys \<Longrightarrow> ldot xs ys = (\<Sum>i<length xs. xs ! i * ys ! i)"
proof (induction xs ys rule: list_induct2)
  case Nil
  show ?case by simp
next
  case (Cons x xs y ys)
  then show ?case by (simp add: sum.lessThan_Suc_shift del: sum.lessThan_Suc)
qed

lemma ldot_eliminated:
  "length as = length bs \<Longrightarrow> length bs = length xs \<Longrightarrow>
   ldot (map2 (\<lambda>a b. b - f * a) as bs) xs = ldot bs xs - f * ldot as xs"
proof (induction as bs xs rule: list_induct3)
  case Nil
  show ?case by simp
next
  case (Cons a as b bs x xs)
  then show ?case by (simp add: algebra_simps)
qed

lemma split_pivot_Some:
  "split_pivot eqs = Some (p, rest) \<Longrightarrow>
   hd (fst p) \<noteq> 0 \<and> set eqs = insert p (set rest) \<and> length eqs = Suc (length rest)"
proof (induction eqs arbitrary: p rest)
  case Nil
  then show ?case by simp
next
  case (Cons e es)
  show ?case
  proof (cases "hd (fst e) \<noteq> 0")
    case True
    with Cons.prems show ?thesis by auto
  next
    case False
    with Cons.prems obtain rest' where sp: "split_pivot es = Some (p, rest')" and r: "rest = e # rest'"
      by (auto split: option.splits)
    from Cons.IH [OF sp] r show ?thesis by auto
  qed
qed

lemma split_pivot_None: "split_pivot eqs = None \<Longrightarrow> e \<in> set eqs \<Longrightarrow> hd (fst e) = 0"
  by (induction eqs) (auto split: if_splits option.splits)

lemma length_fst_eliminate:
  "length (fst p) = Suc k \<Longrightarrow> length (fst e) = Suc k \<Longrightarrow> length (fst (eliminate p e)) = k"
  by (simp add: eliminate_def Let_def)

text \<open>One elimination step: with the pivot equation solved for the first unknown, an
  equation holds exactly when its eliminated form holds for the other unknowns.\<close>

lemma eliminate_step:
  assumes p: "length (fst p) = Suc k" "hd (fst p) \<noteq> 0"
    and e: "length (fst e) = Suc k"
    and ys: "length ys = k"
    and piv: "ldot (fst p) (y # ys) = c"
  shows "ldot (fst e) (y # ys) = d + (hd (fst e) / hd (fst p)) * (c - snd p)
         \<longleftrightarrow> ldot (fst (eliminate p e)) ys = d - (hd (fst e) / hd (fst p)) * snd p"
proof -
  obtain a as where pa: "fst p = a # as" using p(1) by (cases "fst p") auto
  obtain b bs where eb: "fst e = b # bs" using e by (cases "fst e") auto
  have a: "a \<noteq> 0" using p(2) pa by simp
  have len: "length as = length bs" "length bs = length ys"
    using p(1) e ys pa eb by simp_all
  have piv': "a * y + ldot as ys = c" using piv pa by simp
  define f where "f = b / a"
  have el: "ldot (fst (eliminate p e)) ys = ldot bs ys - f * ldot as ys"
    using ldot_eliminated [OF len, of "b / a"] by (simp add: eliminate_def pa eb f_def)
  have "y = (c - ldot as ys) / a"
    using a piv' by (simp add: field_simps)
  then have b_y: "b * y = f * (c - ldot as ys)"
    by (simp add: f_def)
  have "ldot (fst e) (y # ys) = d + f * (c - snd p) \<longleftrightarrow>
        ldot (fst (eliminate p e)) ys = d - f * snd p"
    unfolding el eb by (simp add: b_y algebra_simps)
  then show ?thesis
    by (simp add: f_def pa eb)
qed

lemma gauss_correct:
  "length eqs = k \<Longrightarrow> list_all (\<lambda>e. length (fst e) = k) eqs \<Longrightarrow> gauss k eqs = Some xs \<Longrightarrow>
   length xs = k \<and> (\<forall>ys. length ys = k \<longrightarrow> (sat eqs ys \<longleftrightarrow> ys = xs))"
proof (induction k arbitrary: eqs xs)
  case 0
  then show ?case by (auto simp: sat_def)
next
  case (Suc k)
  from Suc.prems(3) obtain p rest xs' where
    sp: "split_pivot eqs = Some (p, rest)"
    and g: "gauss k (map (eliminate p) rest) = Some xs'"
    and xs: "xs = (snd p - ldot (tl (fst p)) xs') / hd (fst p) # xs'"
    by (auto split: option.splits)
  from split_pivot_Some [OF sp] have
    hd: "hd (fst p) \<noteq> 0" and set: "set eqs = insert p (set rest)" and len: "length eqs = Suc (length rest)"
    by simp_all
  have lens: "\<And>e. e \<in> set eqs \<Longrightarrow> length (fst e) = Suc k"
    using Suc.prems(2) by (simp add: list_all_iff)
  have lp: "length (fst p) = Suc k" using lens set by simp
  have lrest: "\<And>e. e \<in> set rest \<Longrightarrow> length (fst e) = Suc k" using lens set by simp
  have "length (map (eliminate p) rest) = k" using len Suc.prems(1) by simp
  moreover have "list_all (\<lambda>e. length (fst e) = k) (map (eliminate p) rest)"
    using lrest lp by (auto simp: list_all_iff length_fst_eliminate)
  ultimately have IH: "length xs' = k"
    "\<And>ys. length ys = k \<Longrightarrow> sat (map (eliminate p) rest) ys \<longleftrightarrow> ys = xs'"
    using Suc.IH [OF _ _ g] by simp_all
  obtain a as where pa: "fst p = a # as" using lp by (cases "fst p") auto
  have a: "a \<noteq> 0" using hd pa by simp
  have "sat eqs zs \<longleftrightarrow> zs = xs" if zs: "length zs = Suc k" for zs
  proof -
    obtain y ys where z: "zs = y # ys" and ys: "length ys = k"
      using zs by (cases zs) auto
    have sat_eq: "sat eqs zs \<longleftrightarrow> ldot (fst p) zs = snd p \<and> (\<forall>e\<in>set rest. ldot (fst e) zs = snd e)"
      by (auto simp: sat_def list_all_iff set)
    have step: "ldot (fst e) zs = snd e \<longleftrightarrow> ldot (fst (eliminate p e)) ys = snd (eliminate p e)"
      if piv: "ldot (fst p) zs = snd p" and e: "e \<in> set rest" for e
      using eliminate_step [OF lp hd lrest [OF e] ys piv [unfolded z], of "snd e"]
      by (simp add: z eliminate_def Let_def)
    have "sat eqs zs \<longleftrightarrow> ldot (fst p) zs = snd p \<and> sat (map (eliminate p) rest) ys"
      unfolding sat_eq using step by (auto simp: sat_def list_all_iff)
    also have "\<dots> \<longleftrightarrow> ldot (fst p) zs = snd p \<and> ys = xs'"
      using IH(2) [OF ys] by simp
    also have "\<dots> \<longleftrightarrow> zs = xs"
      using a by (auto simp: z xs pa field_simps)
    finally show ?thesis .
  qed
  then show ?case using IH(1) xs by simp
qed

lemma gauss_None:
  "length eqs = k \<Longrightarrow> list_all (\<lambda>e. length (fst e) = k) eqs \<Longrightarrow> gauss k eqs = None \<Longrightarrow>
   \<exists>ys. length ys = k \<and> ys \<noteq> replicate k 0 \<and> (\<forall>e\<in>set eqs. ldot (fst e) ys = 0)"
proof (induction k arbitrary: eqs)
  case 0
  then show ?case by simp
next
  case (Suc k)
  have lens: "\<And>e. e \<in> set eqs \<Longrightarrow> length (fst e) = Suc k"
    using Suc.prems(2) by (simp add: list_all_iff)
  show ?case
  proof (cases "split_pivot eqs")
    case None
    have "ldot (fst e) (1 # replicate k 0) = 0" if e: "e \<in> set eqs" for e
    proof -
      obtain b bs where eb: "fst e = b # bs" using lens [OF e] by (cases "fst e") auto
      with split_pivot_None [OF None e] show ?thesis by simp
    qed
    then show ?thesis
      by (intro exI [of _ "1 # replicate k 0"]) simp
  next
    case (Some pr)
    obtain p rest where pr: "pr = (p, rest)" by (cases pr)
    note sp = Some [unfolded pr]
    from split_pivot_Some [OF sp] have
      hd: "hd (fst p) \<noteq> 0" and set: "set eqs = insert p (set rest)" and len: "length eqs = Suc (length rest)"
      by simp_all
    have lp: "length (fst p) = Suc k" using lens set by simp
    have lrest: "\<And>e. e \<in> set rest \<Longrightarrow> length (fst e) = Suc k" using lens set by simp
    have g: "gauss k (map (eliminate p) rest) = None"
      using Suc.prems(3) sp by (auto split: option.splits)
    have "length (map (eliminate p) rest) = k" using len Suc.prems(1) by simp
    moreover have "list_all (\<lambda>e. length (fst e) = k) (map (eliminate p) rest)"
      using lrest lp by (auto simp: list_all_iff length_fst_eliminate)
    ultimately obtain ys where ys: "length ys = k" "ys \<noteq> replicate k 0"
      and ker: "\<And>e. e \<in> set rest \<Longrightarrow> ldot (fst (eliminate p e)) ys = 0"
      using Suc.IH [OF _ _ g] by auto
    obtain a as where pa: "fst p = a # as" using lp by (cases "fst p") auto
    have a: "a \<noteq> 0" using hd pa by simp
    define y where "y = - ldot as ys / a"
    have piv: "ldot (fst p) (y # ys) = 0"
      using a by (simp add: pa y_def)
    have "ldot (fst e) (y # ys) = 0" if e: "e \<in> set rest" for e
      using eliminate_step [OF lp hd lrest [OF e] ys(1) piv, of "hd (fst e) / hd (fst p) * snd p"] ker [OF e]
      by simp
    with piv have "\<forall>e\<in>set eqs. ldot (fst e) (y # ys) = 0"
      by (simp add: set)
    moreover have "y # ys \<noteq> replicate (Suc k) 0" using ys(2) by simp
    ultimately show ?thesis using ys(1)
      by (intro exI [of _ "y # ys"]) simp
  qed
qed

section \<open>Linear solves and inverses\<close>

lemma length_row: "wf_mat M \<Longrightarrow> i < nrows M \<Longrightarrow> length (rows M ! i) = ncols M"
  by (simp add: wf_mat_def list_all_length)

lemma ldot_row:
  "wf_mat M \<Longrightarrow> i < nrows M \<Longrightarrow> length y = ncols M \<Longrightarrow>
   ldot (rows M ! i) y = (\<Sum>j<ncols M. ent M i j * y ! j)"
  by (simp add: ldot_sum length_row ent_def)

lemma length_mvmul [simp]: "length (mvmul M x) = nrows M"
  by (simp add: mvmul_def)

lemma nth_mvmul [simp]: "i < nrows M \<Longrightarrow> mvmul M x ! i = (\<Sum>j<ncols M. ent M i j * x ! j)"
  by (simp add: mvmul_def)

lemma length_vplus [simp]: "length (vplus x y) = length x"
  by (simp add: vplus_def)

lemma nth_vplus [simp]: "i < length x \<Longrightarrow> vplus x y ! i = x ! i + y ! i"
  by (simp add: vplus_def)

lemma vec_eqI: "length x = length y \<Longrightarrow> (\<And>i. i < length x \<Longrightarrow> x ! i = y ! i) \<Longrightarrow> x = y"
  by (rule nth_equalityI)

lemma sat_zip_rows:
  assumes "wf_mat M" "length b = nrows M" "length y = ncols M"
  shows "sat (zip (rows M) b) y \<longleftrightarrow> mvmul M y = b"
proof -
  have len: "length (rows M) = nrows M" using assms(1) by (simp add: wf_mat_def)
  have "sat (zip (rows M) b) y \<longleftrightarrow> (\<forall>i<nrows M. ldot (rows M ! i) y = b ! i)"
    by (simp add: sat_def list_all_length len assms(2))
  also have "\<dots> \<longleftrightarrow> (\<forall>i<nrows M. mvmul M y ! i = b ! i)"
    by (simp add: ldot_row assms)
  also have "\<dots> \<longleftrightarrow> mvmul M y = b"
    by (simp add: list_eq_iff_nth_eq assms(2))
  finally show ?thesis .
qed

lemma zip_rows_wf:
  assumes "wf_mat M" "nrows M = ncols M" "length b = nrows M"
  shows "length (zip (rows M) b) = nrows M"
    and "list_all (\<lambda>e. length (fst e) = nrows M) (zip (rows M) b)"
  using assms by (auto simp: wf_mat_def list_all_iff dest: set_zip_leftD)

lemma solve_Inr:
  assumes "wf_mat M" "solve M b = Inr x"
  shows "nrows M = ncols M" "length b = nrows M" "length x = nrows M" "mvmul M x = b"
    and "\<And>y. length y = nrows M \<Longrightarrow> mvmul M y = b \<Longrightarrow> y = x"
proof -
  from assms(2) show sq: "nrows M = ncols M" and b: "length b = nrows M"
    by (auto simp: solve_def split: if_splits)
  from assms(2) sq b have g: "gauss (nrows M) (zip (rows M) b) = Some x"
    by (auto simp: solve_def split: option.splits)
  from gauss_correct [OF zip_rows_wf [OF assms(1) sq b] g]
  have x: "length x = nrows M"
    and uniq: "\<And>y. length y = nrows M \<Longrightarrow> sat (zip (rows M) b) y \<longleftrightarrow> y = x"
    by simp_all
  show "length x = nrows M" by (rule x)
  from uniq [OF x] show "mvmul M x = b"
    using sat_zip_rows [OF assms(1) b, of x] x sq by simp
  fix y assume "length y = nrows M" "mvmul M y = b"
  then show "y = x"
    using uniq [of y] sat_zip_rows [OF assms(1) b, of y] sq by simp
qed

lemma mvmul_vplus:
  "length x = ncols M \<Longrightarrow> length y = ncols M \<Longrightarrow>
   mvmul M (vplus x y) = vplus (mvmul M x) (mvmul M y)"
  by (rule vec_eqI) (simp_all add: algebra_simps sum.distrib)

lemma vplus_zero_right: "length b = n \<Longrightarrow> vplus b (replicate n 0) = b"
  by (rule vec_eqI) simp_all

lemma solve_Inr_nonsingular:
  assumes "wf_mat M" "solve M b = Inr x"
  shows "nonsingular M"
  unfolding nonsingular_def
proof (intro allI impI)
  fix y assume y: "length y = ncols M" and ker: "mvmul M y = replicate (nrows M) 0"
  note s = solve_Inr [OF assms]
  have "mvmul M (vplus x y) = b"
    using s(1,2,3,4) y by (simp add: mvmul_vplus ker vplus_zero_right)
  then have "vplus x y = x"
    using s(3) by (intro s(5)) simp_all
  then have "\<And>i. i < ncols M \<Longrightarrow> vplus x y ! i = x ! i" by simp
  then have "\<And>i. i < ncols M \<Longrightarrow> y ! i = 0"
    using s(1,3) by simp
  then show "y = replicate (ncols M) 0"
    using y by (intro vec_eqI) simp_all
qed

lemma solve_singular:
  assumes "wf_mat M" "nrows M = ncols M" "length b = nrows M" "solve M b = Inl e"
  shows "e = SingularMatrix" "\<not> nonsingular M"
proof -
  from assms(2,3,4) show "e = SingularMatrix"
    by (auto simp: solve_def split: option.splits)
  from assms(2,3,4) have g: "gauss (nrows M) (zip (rows M) b) = None"
    by (auto simp: solve_def split: option.splits)
  from gauss_None [OF zip_rows_wf [OF assms(1-3)] g]
  obtain ys where ys: "length ys = nrows M" "ys \<noteq> replicate (nrows M) 0"
    and ker: "\<And>e. e \<in> set (zip (rows M) b) \<Longrightarrow> ldot (fst e) ys = 0"
    by blast
  have len: "length (rows M) = nrows M" using assms(1) by (simp add: wf_mat_def)
  have "mvmul M ys ! i = 0" if i: "i < nrows M" for i
  proof -
    have "(rows M ! i, b ! i) \<in> set (zip (rows M) b)"
      using i len assms(3) by (auto simp: set_zip)
    from ker [OF this] show ?thesis
      using i ys(1) assms(2) by (simp add: ldot_row assms(1))
  qed
  then have "mvmul M ys = replicate (nrows M) 0"
    by (intro vec_eqI) simp_all
  with ys assms(2) show "\<not> nonsingular M"
    by (auto simp: nonsingular_def)
qed

lemma solve_nonsingular:
  assumes "wf_mat M" "nrows M = ncols M" "length b = nrows M" "nonsingular M"
  shows "\<exists>x. solve M b = Inr x"
  using solve_singular(2) [OF assms(1-3)] assms(4) by (cases "solve M b") auto

lemma those_e_map_Inr:
  "those_e (map f xs) = Inr ys \<Longrightarrow>
   length ys = length xs \<and> (\<forall>i<length xs. f (xs ! i) = Inr (ys ! i))"
proof (induction xs arbitrary: ys)
  case Nil
  then show ?case by simp
next
  case (Cons a xs)
  from Cons.prems obtain y ys' where a: "f a = Inr y" and r: "those_e (map f xs) = Inr ys'"
    and ys: "ys = y # ys'"
    by (auto split: sum.splits)
  from Cons.IH [OF r] a ys show ?case
    by (auto simp: nth_Cons split: nat.splits)
qed

lemma those_e_map_Inl:
  "those_e (map f xs) = Inl e \<Longrightarrow> \<exists>x\<in>set xs. f x = Inl e"
  by (induction xs) (auto split: sum.splits)

lemma mvmul_mmul:
  "ncols X = nrows Y \<Longrightarrow> mvmul (mmul X Y) v = mvmul X (mvmul Y v)"
proof (rule vec_eqI)
  show "length (mvmul (mmul X Y) v) = length (mvmul X (mvmul Y v))" by simp
next
  fix i assume "i < length (mvmul (mmul X Y) v)"
  then have i: "i < nrows X" by simp
  assume XY: "ncols X = nrows Y"
  have "mvmul (mmul X Y) v ! i = (\<Sum>j<ncols Y. (\<Sum>k<ncols X. ent X i k * ent Y k j) * v ! j)"
    using i by simp
  also have "\<dots> = (\<Sum>j<ncols Y. \<Sum>k<ncols X. ent X i k * (ent Y k j * v ! j))"
    by (simp add: sum_distrib_right mult.assoc)
  also have "\<dots> = (\<Sum>k<ncols X. \<Sum>j<ncols Y. ent X i k * (ent Y k j * v ! j))"
    by (rule sum.swap)
  also have "\<dots> = (\<Sum>k<ncols X. ent X i k * mvmul Y v ! k)"
    using XY by (simp add: sum_distrib_left)
  also have "\<dots> = mvmul X (mvmul Y v) ! i"
    using i by simp
  finally show "mvmul (mmul X Y) v ! i = mvmul X (mvmul Y v) ! i" .
qed

lemma mvmul_eye: "length v = n \<Longrightarrow> mvmul (eye n) v = v"
  by (rule vec_eqI) (simp_all add: if_distrib [of "\<lambda>x. x * _"] sum.delta cong: if_cong)

lemma length_unit_vec [simp]: "length (unit_vec n j) = n"
  by (simp add: unit_vec_def)

lemma nth_unit_vec [simp]: "i < n \<Longrightarrow> unit_vec n j ! i = (if i = j then 1 else 0)"
  by (simp add: unit_vec_def)

lemma inv_m_Inr:
  assumes "wf_mat M" "inv_m M = Inr Mi"
  shows "nrows M = ncols M" "wf_mat Mi" "nrows Mi = nrows M" "ncols Mi = nrows M"
    "mmul M Mi = eye (nrows M)" "nonsingular M"
proof -
  from assms(2) show sq: "nrows M = ncols M"
    by (auto simp: inv_m_def split: if_splits)
  from assms(2) sq obtain cols where
    th: "those_e (map (\<lambda>j. solve M (unit_vec (nrows M) j)) [0..<nrows M]) = Inr cols"
    and Mi: "Mi = mk_mat (nrows M) (nrows M) (\<lambda>i j. cols ! j ! i)"
    by (auto simp: inv_m_def split: sum.splits)
  from those_e_map_Inr [OF th]
  have cols: "\<And>j. j < nrows M \<Longrightarrow> solve M (unit_vec (nrows M) j) = Inr (cols ! j)"
    by simp
  show "wf_mat Mi" "nrows Mi = nrows M" "ncols Mi = nrows M"
    by (simp_all add: Mi)
  show "mmul M Mi = eye (nrows M)"
  proof (rule mat_eqI)
    fix i j assume "i < nrows (mmul M Mi)" "j < ncols (mmul M Mi)"
    then have i: "i < nrows M" and j: "j < nrows M" by (simp_all add: Mi)
    note s = solve_Inr [OF assms(1) cols [OF j]]
    have "ent (mmul M Mi) i j = (\<Sum>k<ncols M. ent M i k * cols ! j ! k)"
      using i j sq by (simp add: Mi)
    also have "\<dots> = mvmul M (cols ! j) ! i"
      using i by simp
    also have "\<dots> = ent (eye (nrows M)) i j"
      using i j by (simp add: s(4))
    finally show "ent (mmul M Mi) i j = ent (eye (nrows M)) i j" .
  qed (simp_all add: Mi)
  show "nonsingular M"
  proof (cases "nrows M")
    case 0
    then show ?thesis using sq by (simp add: nonsingular_def)
  next
    case (Suc k)
    then have "0 < nrows M" by simp
    from solve_Inr_nonsingular [OF assms(1) cols [OF this]] show ?thesis .
  qed
qed

lemma inv_m_Inl:
  assumes "wf_mat M" "nrows M = ncols M" "inv_m M = Inl e"
  shows "e = SingularMatrix" "\<not> nonsingular M"
proof -
  from assms(2,3) have "those_e (map (\<lambda>j. solve M (unit_vec (nrows M) j)) [0..<nrows M]) = Inl e"
    by (auto simp: inv_m_def split: sum.splits)
  from those_e_map_Inl [OF this] obtain j where "solve M (unit_vec (nrows M) j) = Inl e"
    by blast
  from solve_singular [OF assms(1,2) _ this]
  show "e = SingularMatrix" "\<not> nonsingular M" by simp_all
qed

lemma inv_m_nonsingular:
  assumes "wf_mat M" "nrows M = ncols M" "nonsingular M"
  shows "\<exists>Mi. inv_m M = Inr Mi"
  using inv_m_Inl(2) [OF assms(1,2)] assms(3) by (cases "inv_m M") auto

lemma solve_via_inv:
  assumes "wf_mat M" "inv_m M = Inr Mi" "length b = nrows M"
  shows "solve M b = Inr (mvmul Mi b)"
proof -
  note i = inv_m_Inr [OF assms(1,2)]
  from solve_nonsingular [OF assms(1) i(1) assms(3) i(6)]
  obtain x where x: "solve M b = Inr x" by blast
  have "mvmul M (mvmul Mi b) = mvmul (mmul M Mi) b"
    using i(1,3) by (simp add: mvmul_mmul)
  also have "\<dots> = b"
    by (simp add: i(5) mvmul_eye assms(3))
  finally have "mvmul Mi b = x"
    by (intro solve_Inr(5) [OF assms(1) x]) (simp_all add: i(3))
  with x show ?thesis by simp
qed

section \<open>Vectorisation and the Kronecker product\<close>

lemma length_vminus [simp]: "length (vminus x y) = length x"
  and length_vscale [simp]: "length (vscale g x) = length x"
  and length_flatten [simp]: "length (flatten M) = nrows M * ncols M"
  by (simp_all add: vminus_def vscale_def flatten_def)

lemma nth_vminus [simp]: "i < length x \<Longrightarrow> vminus x y ! i = x ! i - y ! i"
  by (simp add: vminus_def)

lemma nth_vscale [simp]: "i < length x \<Longrightarrow> vscale g x ! i = g * x ! i"
  by (simp add: vscale_def)

lemma nth_flatten' [simp]:
  "k < nrows M * ncols M \<Longrightarrow> flatten M ! k = ent M (k div ncols M) (k mod ncols M)"
  by (simp add: flatten_def)

lemma index_less: "i < r \<Longrightarrow> j < c \<Longrightarrow> i * c + j < r * (c::nat)"
proof -
  assume "i < r" "j < c"
  then have "i * c + j < Suc i * c" by simp
  also have "\<dots> \<le> r * c" using \<open>i < r\<close> by (intro mult_le_mono1) simp
  finally show ?thesis .
qed

lemma div_less_rows: "k < r * c \<Longrightarrow> k div c < (r::nat)"
  by (simp add: less_mult_imp_div_less)

lemma mod_less_cols: "k < r * c \<Longrightarrow> k mod c < (c::nat)"
  by (cases "c = 0") simp_all

lemma nth_flatten: "i < nrows M \<Longrightarrow> j < ncols M \<Longrightarrow> flatten M ! (i * ncols M + j) = ent M i j"
  by (simp add: index_less)

lemma flatten_inject:
  assumes "wf_mat X" "wf_mat Y" "nrows X = nrows Y" "ncols X = ncols Y" "flatten X = flatten Y"
  shows "X = Y"
proof (rule mat_eqI [OF assms(1-4)])
  fix i j assume ij: "i < nrows X" "j < ncols X"
  then have "ent X i j = flatten X ! (i * ncols X + j)" by (simp add: nth_flatten)
  also have "\<dots> = ent Y i j" using ij assms(3,4) by (simp add: assms(5) nth_flatten)
  finally show "ent X i j = ent Y i j" .
qed

lemma flatten_reshape:
  assumes "reshape v (r, c) = Inr P"
  shows "flatten P = v"
proof -
  from assms have len: "length v = r * c" and P: "P = mk_mat r c (\<lambda>i j. v ! (i * c + j))"
    by (auto simp: reshape_def split: if_splits)
  show ?thesis
  proof (rule vec_eqI)
    show "length (flatten P) = length v" by (simp add: P len)
  next
    fix k assume "k < length (flatten P)"
    then have k: "k < r * c" by (simp add: P)
    then show "flatten P ! k = v ! k"
      by (simp add: P div_less_rows mod_less_cols)
  qed
qed

lemma flatten_msub:
  "nrows X = nrows Y \<Longrightarrow> ncols X = ncols Y \<Longrightarrow>
   flatten (msub X Y) = vminus (flatten X) (flatten Y)"
  by (rule vec_eqI) (simp_all add: div_less_rows mod_less_cols)

lemma flatten_madd:
  "nrows X = nrows Y \<Longrightarrow> ncols X = ncols Y \<Longrightarrow>
   flatten (madd X Y) = vplus (flatten X) (flatten Y)"
  by (rule vec_eqI) (simp_all add: div_less_rows mod_less_cols)

lemma flatten_smul: "flatten (smul g X) = vscale g (flatten X)"
  by (rule vec_eqI) (simp_all add: div_less_rows mod_less_cols)

lemma mvmul_msub:
  "nrows X = nrows Y \<Longrightarrow> ncols X = ncols Y \<Longrightarrow>
   mvmul (msub X Y) v = vminus (mvmul X v) (mvmul Y v)"
  by (rule vec_eqI) (simp_all add: algebra_simps sum_subtractf)

lemma mvmul_madd:
  "nrows X = nrows Y \<Longrightarrow> ncols X = ncols Y \<Longrightarrow>
   mvmul (madd X Y) v = vplus (mvmul X v) (mvmul Y v)"
  by (rule vec_eqI) (simp_all add: algebra_simps sum.distrib)

lemma mvmul_smul: "mvmul (smul g X) v = vscale g (mvmul X v)"
  by (rule vec_eqI) (simp_all add: sum_distrib_left mult.assoc)

lemma sum_div_mod:
  fixes f :: "nat \<Rightarrow> nat \<Rightarrow> real"
  shows "(\<Sum>k<a * b. f (k div b) (k mod b)) = (\<Sum>j<a. \<Sum>l<b. f j l)"
proof -
  have "(\<Sum>j<a. \<Sum>l<b. f j l) = (\<Sum>j<a. \<Sum>k = j * b..<j * b + b. f (k div b) (k mod b))"
  proof (rule sum.cong [OF refl])
    fix j
    have "(\<Sum>k = j * b..<j * b + b. f (k div b) (k mod b))
          = (\<Sum>l = 0..<b. f ((l + j * b) div b) ((l + j * b) mod b))"
      using sum.shift_bounds_nat_ivl [of "\<lambda>k. f (k div b) (k mod b)" 0 "j * b" b]
      by (simp add: add.commute)
    also have "\<dots> = (\<Sum>l = 0..<b. f j l)"
      by (rule sum.cong) simp_all
    finally show "(\<Sum>l<b. f j l) = (\<Sum>k = j * b..<j * b + b. f (k div b) (k mod b))"
      by (simp add: atLeast0LessThan)
  qed
  also have "\<dots> = (\<Sum>k<a * b. f (k div b) (k mod b))"
    by (rule sum.nat_group)
  finally show ?thesis by simp
qed

text \<open>The identity behind the vectorised equation: in row-major order,
  \<open>(X \<otimes> Y) vec(P) = vec(X P Y\<^sup>T)\<close>.\<close>

lemma mvmul_kron_flatten:
  assumes "ncols X = nrows P" "ncols Y = ncols P"
  shows "mvmul (kron X Y) (flatten P) = flatten (mmul (mmul X P) (transpose_m Y))"
proof (rule vec_eqI)
  show "length (mvmul (kron X Y) (flatten P)) = length (flatten (mmul (mmul X P) (transpose_m Y)))"
    by simp
next
  fix r assume "r < length (mvmul (kron X Y) (flatten P))"
  then have r: "r < nrows X * nrows Y" by simp
  then have ri: "r div nrows Y < nrows X" and rk: "r mod nrows Y < nrows Y"
    by (simp_all add: div_less_rows mod_less_cols)
  let ?i = "r div nrows Y" and ?k = "r mod nrows Y"
  have "mvmul (kron X Y) (flatten P) ! r
        = (\<Sum>c<ncols X * ncols Y. ent (kron X Y) r c * flatten P ! c)"
    using r by simp
  also have "\<dots> = (\<Sum>c<ncols X * ncols Y.
       ent X ?i (c div ncols Y) * ent Y ?k (c mod ncols Y) * ent P (c div ncols Y) (c mod ncols Y))"
    using r assms by (intro sum.cong refl) (simp add: kron_def)
  also have "\<dots> = (\<Sum>j<ncols X. \<Sum>l<ncols Y. ent X ?i j * ent Y ?k l * ent P j l)"
    by (rule sum_div_mod)
  also have "\<dots> = (\<Sum>l<ncols Y. \<Sum>j<ncols X. ent X ?i j * ent Y ?k l * ent P j l)"
    by (rule sum.swap)
  also have "\<dots> = (\<Sum>l<ncols Y. \<Sum>j<ncols X. ent X ?i j * ent P j l * ent Y ?k l)"
    by (intro sum.cong refl) simp
  also have "\<dots> = (\<Sum>l<ncols Y. (\<Sum>j<ncols X. ent X ?i j * ent P j l) * ent Y ?k l)"
    by (simp add: sum_distrib_right)
  also have "\<dots> = flatten (mmul (mmul X P) (transpose_m Y)) ! r"
    using r ri rk assms by simp
  finally show "mvmul (kron X Y) (flatten P) ! r = flatten (mmul (mmul X P) (transpose_m Y)) ! r" .
qed

section \<open>Matrix algebra\<close>

lemma transpose_transpose: "wf_mat X \<Longrightarrow> transpose_m (transpose_m X) = X"
  by (rule mat_eqI) simp_all

lemma transpose_mmul:
  "ncols X = nrows Y \<Longrightarrow> transpose_m (mmul X Y) = mmul (transpose_m Y) (transpose_m X)"
  by (rule mat_eqI) (simp_all add: mult.commute)

lemma transpose_msub:
  "nrows X = nrows Y \<Longrightarrow> ncols X = ncols Y \<Longrightarrow>
   transpose_m (msub X Y) = msub (transpose_m X) (transpose_m Y)"
  by (rule mat_eqI) simp_all

lemma mmul_msub_left:
  "nrows X = nrows Y \<Longrightarrow> ncols X = ncols Y \<Longrightarrow>
   mmul (msub X Y) Z = msub (mmul X Z) (mmul Y Z)"
  by (rule mat_eqI) (simp_all add: algebra_simps sum_subtractf)

lemma mmul_msub_right:
  "nrows Y = nrows Z \<Longrightarrow> ncols Y = ncols Z \<Longrightarrow> ncols X = nrows Y \<Longrightarrow>
   mmul X (msub Y Z) = msub (mmul X Y) (mmul X Z)"
  by (rule mat_eqI) (simp_all add: algebra_simps sum_subtractf)

lemma mmul_assoc:
  assumes "ncols X = nrows Y" "ncols Y = nrows Z"
  shows "mmul (mmul X Y) Z = mmul X (mmul Y Z)"
proof (rule mat_eqI)
  fix i j assume "i < nrows (mmul (mmul X Y) Z)" "j < ncols (mmul (mmul X Y) Z)"
  then have i: "i < nrows X" and j: "j < ncols Z" by simp_all
  have "ent (mmul (mmul X Y) Z) i j = (\<Sum>l<ncols Y. (\<Sum>k<ncols X. ent X i k * ent Y k l) * ent Z l j)"
    using i j by simp
  also have "\<dots> = (\<Sum>l<ncols Y. \<Sum>k<ncols X. ent X i k * (ent Y k l * ent Z l j))"
    by (simp add: sum_distrib_right mult.assoc)
  also have "\<dots> = (\<Sum>k<ncols X. \<Sum>l<ncols Y. ent X i k * (ent Y k l * ent Z l j))"
    by (rule sum.swap)
  also have "\<dots> = (\<Sum>k<ncols X. ent X i k * ent (mmul Y Z) k j)"
    using j assms by (simp add: sum_distrib_left)
  also have "\<dots> = ent (mmul X (mmul Y Z)) i j"
    using i j by simp
  finally show "ent (mmul (mmul X Y) Z) i j = ent (mmul X (mmul Y Z)) i j" .
qed simp_all

lemma mmul_eye_right: "wf_mat X \<Longrightarrow> ncols X = n \<Longrightarrow> mmul X (eye n) = X"
  by (rule mat_eqI) (simp_all add: if_distrib [of "\<lambda>x. _ * x"] sum.delta cong: if_cong)

lemma mmul_eye_left: "wf_mat X \<Longrightarrow> nrows X = n \<Longrightarrow> mmul (eye n) X = X"
  by (rule mat_eqI) (simp_all add: if_distrib [of "\<lambda>x. x * _"] sum.delta cong: if_cong)

section \<open>The value matrix: the Lyapunov equation and symmetry\<close>

lemma lqr_shapesD:
  assumes "lqr_shapes n m lqr"
  shows "wf_mat (lqr_A lqr)" "nrows (lqr_A lqr) = n" "ncols (lqr_A lqr) = n"
    "wf_mat (lqr_B lqr)" "nrows (lqr_B lqr) = n" "ncols (lqr_B lqr) = m"
    "wf_mat (lqr_Q lqr)" "nrows (lqr_Q lqr) = n" "ncols (lqr_Q lqr) = n"
    "wf_mat (lqr_R lqr)" "nrows (lqr_R lqr) = m" "ncols (lqr_R lqr) = m"
  using assms by (simp_all add: lqr_shapes_def is_mat_def)

lemma dims_system_matrix [simp]:
  "nrows (system_matrix lqr K) = nrows (lqr_Q lqr) ^ 2"
  "ncols (system_matrix lqr K) = nrows (lqr_Q lqr) ^ 2"
  "wf_mat (system_matrix lqr K)"
  by (simp_all add: system_matrix_def Let_def)

lemma dims_lyap_L [simp]:
  "nrows (lyap_L lqr K) = nrows (lqr_Q lqr)" "ncols (lyap_L lqr K) = ncols (lqr_Q lqr)"
  "wf_mat (lyap_L lqr K)"
  by (simp_all add: lyap_L_def)

lemma intermediate_results_fit:
  assumes "lqr_shapes n m lqr" "is_mat m n K"
  shows "compute_lqr_intermediate_results K (lqr_A lqr) (lqr_B lqr) (lqr_Q lqr) (lqr_R lqr)
           (lqr_gamma lqr) = Inr (lyap_L lqr K, system_matrix lqr K)"
  using lqr_shapesD [OF assms(1)] is_matD [OF assms(2)]
  by (simp add: compute_lqr_intermediate_results_def Let_def matmul_fits add_same_shape
      sub_same_shape lyap_L_def system_matrix_def power2_eq_square)

lemma closed_loop_expand:
  assumes "lqr_shapes n m lqr" "is_mat m n K" "nrows P = n" "ncols P = n"
  defines "At \<equiv> transpose_m (lqr_A lqr)"
    and "kb \<equiv> mmul (transpose_m K) (transpose_m (lqr_B lqr))"
    and "BK \<equiv> mmul (lqr_B lqr) K"
  shows "mmul (mmul (transpose_m (closed_loop lqr K)) P) (closed_loop lqr K)
         = madd (msub (msub (mmul (mmul At P) (lqr_A lqr)) (mmul (mmul At P) BK))
                      (mmul (mmul kb P) (lqr_A lqr)))
                (mmul (mmul kb P) BK)"
proof -
  note s = lqr_shapesD [OF assms(1)] is_matD [OF assms(2)]
  have kb: "transpose_m BK = kb"
    using s by (simp add: BK_def kb_def transpose_mmul)
  have "transpose_m (closed_loop lqr K) = msub At kb"
    using s by (simp add: closed_loop_def transpose_msub At_def kb [symmetric] BK_def)
  then have "mmul (mmul (transpose_m (closed_loop lqr K)) P) (closed_loop lqr K)
        = mmul (mmul (msub At kb) P) (msub (lqr_A lqr) BK)"
    by (simp add: closed_loop_def BK_def)
  also have "\<dots> = mmul (msub (mmul At P) (mmul kb P)) (msub (lqr_A lqr) BK)"
    using s by (simp add: mmul_msub_left At_def kb_def)
  also have "\<dots> = msub (mmul (msub (mmul At P) (mmul kb P)) (lqr_A lqr))
                        (mmul (msub (mmul At P) (mmul kb P)) BK)"
    using s assms(3,4) by (simp add: mmul_msub_right At_def kb_def BK_def)
  also have "\<dots> = msub (msub (mmul (mmul At P) (lqr_A lqr)) (mmul (mmul kb P) (lqr_A lqr)))
                        (msub (mmul (mmul At P) BK) (mmul (mmul kb P) BK))"
    using s assms(3,4) by (simp add: mmul_msub_left At_def kb_def BK_def)
  also have "\<dots> = madd (msub (msub (mmul (mmul At P) (lqr_A lqr)) (mmul (mmul At P) BK))
                      (mmul (mmul kb P) (lqr_A lqr)))
                (mmul (mmul kb P) BK)"
    using s assms(3,4) by (intro mat_eqI) (simp_all add: At_def kb_def BK_def)
  finally show ?thesis .
qed

lemma system_matrix_flatten:
  assumes "lqr_shapes n m lqr" "is_mat m n K" "nrows P = n" "ncols P = n"
  shows "mvmul (system_matrix lqr K) (flatten P)
         = flatten (msub P (smul (lqr_gamma lqr)
             (mmul (mmul (transpose_m (closed_loop lqr K)) P) (closed_loop lqr K))))"
proof -
  note s = lqr_shapesD [OF assms(1)] is_matD [OF assms(2)]
  define At where "At = transpose_m (lqr_A lqr)"
  define kb where "kb = mmul (transpose_m K) (transpose_m (lqr_B lqr))"
  define BK where "BK = mmul (lqr_B lqr) K"
  have dims: "nrows At = n" "ncols At = n" "nrows kb = n" "ncols kb = n"
    "nrows BK = n" "ncols BK = n"
    using s by (simp_all add: At_def kb_def BK_def)
  have tA: "transpose_m At = lqr_A lqr"
    using s by (simp add: At_def transpose_transpose)
  have tkb: "transpose_m kb = BK"
    using s by (simp add: kb_def BK_def transpose_mmul transpose_transpose)
  have k1: "mvmul (kron At At) (flatten P) = flatten (mmul (mmul At P) (lqr_A lqr))"
    using mvmul_kron_flatten [of At P At] dims assms(3,4) by (simp add: tA)
  have k2: "mvmul (kron At kb) (flatten P) = flatten (mmul (mmul At P) BK)"
    using mvmul_kron_flatten [of At P kb] dims assms(3,4) by (simp add: tkb)
  have k3: "mvmul (kron kb At) (flatten P) = flatten (mmul (mmul kb P) (lqr_A lqr))"
    using mvmul_kron_flatten [of kb P At] dims assms(3,4) by (simp add: tA)
  have k4: "mvmul (kron kb kb) (flatten P) = flatten (mmul (mmul kb P) BK)"
    using mvmul_kron_flatten [of kb P kb] dims assms(3,4) by (simp add: tkb)
  have "mvmul (system_matrix lqr K) (flatten P)
        = vminus (mvmul (eye (n ^ 2)) (flatten P))
            (vscale (lqr_gamma lqr)
               (vplus (vminus (vminus (mvmul (kron At At) (flatten P)) (mvmul (kron At kb) (flatten P)))
                              (mvmul (kron kb At) (flatten P)))
                      (mvmul (kron kb kb) (flatten P))))"
    unfolding system_matrix_def Let_def At_def [symmetric] kb_def [symmetric]
    using dims s(8)
    by (simp add: mvmul_msub mvmul_madd mvmul_smul power2_eq_square)
  also have "\<dots> = vminus (flatten P)
            (vscale (lqr_gamma lqr)
               (vplus (vminus (vminus (flatten (mmul (mmul At P) (lqr_A lqr)))
                                      (flatten (mmul (mmul At P) BK)))
                              (flatten (mmul (mmul kb P) (lqr_A lqr))))
                      (flatten (mmul (mmul kb P) BK))))"
    using assms(3,4) by (simp add: k1 k2 k3 k4 mvmul_eye power2_eq_square)
  also have "\<dots> = flatten (msub P (smul (lqr_gamma lqr)
              (madd (msub (msub (mmul (mmul At P) (lqr_A lqr)) (mmul (mmul At P) BK))
                      (mmul (mmul kb P) (lqr_A lqr)))
                (mmul (mmul kb P) BK))))"
    using dims s assms(3,4) by (simp add: flatten_msub flatten_madd flatten_smul)
  also have "\<dots> = flatten (msub P (smul (lqr_gamma lqr)
             (mmul (mmul (transpose_m (closed_loop lqr K)) P) (closed_loop lqr K))))"
    using closed_loop_expand [OF assms] by (simp add: At_def kb_def BK_def)
  finally show ?thesis .
qed

lemma compute_lqr_P_nonsingular:
  assumes "lqr_shapes n m lqr" "is_mat m n K" "nonsingular (system_matrix lqr K)"
  shows "\<exists>P. compute_lqr_P lqr K = Inr P \<and> is_mat n n P
           \<and> mvmul (system_matrix lqr K) (flatten P) = flatten (lyap_L lqr K)"
proof -
  note s = lqr_shapesD [OF assms(1)]
  have "length (flatten (lyap_L lqr K)) = nrows (system_matrix lqr K)"
    using s by (simp add: power2_eq_square)
  from solve_nonsingular [OF _ _ this assms(3)]
  obtain v where v: "solve (system_matrix lqr K) (flatten (lyap_L lqr K)) = Inr v"
    by auto
  from solve_Inr(3,4) [OF _ v] have len: "length v = n * n"
    and Mv: "mvmul (system_matrix lqr K) v = flatten (lyap_L lqr K)"
    using s by (simp_all add: power2_eq_square)
  define P where "P = mk_mat n n (\<lambda>i j. v ! (i * n + j))"
  have r: "reshape v (n, n) = Inr P"
    by (simp add: reshape_def len P_def)
  have "compute_lqr_P lqr K = Inr P"
    using s by (simp add: compute_lqr_P_def parse_lqr_def intermediate_results_fit [OF assms(1,2)]
        v shape_def r)
  moreover have "is_mat n n P" by (simp add: P_def)
  moreover have "mvmul (system_matrix lqr K) (flatten P) = flatten (lyap_L lqr K)"
    using flatten_reshape [OF r] Mv by simp
  ultimately show ?thesis by blast
qed

lemma lyapunov_of_vectorised:
  assumes "lqr_shapes n m lqr" "is_mat m n K" "is_mat n n P"
  shows "mvmul (system_matrix lqr K) (flatten P) = flatten (lyap_L lqr K)
         \<longleftrightarrow> P = lyapunov_rhs lqr K P"
proof -
  note s = lqr_shapesD [OF assms(1)] and p = is_matD [OF assms(3)]
  define E where "E = smul (lqr_gamma lqr)
     (mmul (mmul (transpose_m (closed_loop lqr K)) P) (closed_loop lqr K))"
  have dE: "nrows E = n" "ncols E = n" "wf_mat E"
    using s is_matD [OF assms(2)] by (simp_all add: E_def closed_loop_def)
  have "mvmul (system_matrix lqr K) (flatten P) = flatten (lyap_L lqr K)
        \<longleftrightarrow> flatten (msub P E) = flatten (lyap_L lqr K)"
    using system_matrix_flatten [OF assms(1,2) p(2,3)] by (simp add: E_def)
  also have "\<dots> \<longleftrightarrow> msub P E = lyap_L lqr K"
    using s p by (auto intro!: flatten_inject)
  also have "\<dots> \<longleftrightarrow> P = madd (lyap_L lqr K) E"
  proof
    assume eq: "msub P E = lyap_L lqr K"
    show "P = madd (lyap_L lqr K) E"
    proof (rule mat_eqI)
      fix i j assume "i < nrows P" "j < ncols P"
      then show "ent P i j = ent (madd (lyap_L lqr K) E) i j"
        using s p by (simp add: eq [symmetric])
    qed (simp_all add: p s)
  next
    assume eq: "P = madd (lyap_L lqr K) E"
    show "msub P E = lyap_L lqr K"
    proof (rule mat_eqI)
      fix i j assume "i < nrows (msub P E)" "j < ncols (msub P E)"
      then have ij: "i < n" "j < n" using p by simp_all
      have "ent P i j = ent (lyap_L lqr K) i j + ent E i j"
        using ij s by (subst eq) simp
      then show "ent (msub P E) i j = ent (lyap_L lqr K) i j"
        using ij p by simp
    qed (simp_all add: p s)
  qed
  finally show ?thesis by (simp add: lyapunov_rhs_def E_def)
qed

text \<open>
  C1. On a problem of consistent dimensions and a gain \<open>K\<close> whose system matrix \<open>M\<close> is
  nonsingular, \<^verbatim>\<open>compute_lqr_P\<close> returns a matrix \<open>P\<close> that satisfies the discounted Lyapunov
  equation \<open>P = Q + K\<^sup>T R K + gamma * (A - B K)\<^sup>T P (A - B K)\<close>.
\<close>

theorem lyapunov_consistency:
  assumes "lqr_shapes n m lqr" "is_mat m n K" "nonsingular (system_matrix lqr K)"
  shows "\<exists>P. compute_lqr_P lqr K = Inr P \<and> is_mat n n P \<and> P = lyapunov_rhs lqr K P"
  using compute_lqr_P_nonsingular [OF assms] lyapunov_of_vectorised [OF assms(1,2)]
  by blast

lemma compute_lqr_P_Inr:
  assumes "lqr_shapes n m lqr" "is_mat m n K" "compute_lqr_P lqr K = Inr P"
  shows "is_mat n n P"
    and "mvmul (system_matrix lqr K) (flatten P) = flatten (lyap_L lqr K)"
    and "\<And>P'. is_mat n n P' \<Longrightarrow>
           mvmul (system_matrix lqr K) (flatten P') = flatten (lyap_L lqr K) \<Longrightarrow> P' = P"
    and "nonsingular (system_matrix lqr K)"
proof -
  note s = lqr_shapesD [OF assms(1)]
  from assms(3) obtain v where v: "solve (system_matrix lqr K) (flatten (lyap_L lqr K)) = Inr v"
    and r: "reshape v (n, n) = Inr P"
    using s by (auto simp: compute_lqr_P_def parse_lqr_def intermediate_results_fit [OF assms(1,2)]
        shape_def split: sum.splits)
  note sv = solve_Inr [OF _ v, simplified]
  from reshape_Inr [OF r] show P: "is_mat n n P" by (simp add: is_mat_def)
  show "mvmul (system_matrix lqr K) (flatten P) = flatten (lyap_L lqr K)"
    using sv(4) by (simp add: flatten_reshape [OF r])
  show "nonsingular (system_matrix lqr K)"
    by (rule solve_Inr_nonsingular [OF _ v]) simp
  fix P' assume P': "is_mat n n P'"
    and eq: "mvmul (system_matrix lqr K) (flatten P') = flatten (lyap_L lqr K)"
  have "flatten P' = v"
    using P' s by (intro sv(5) eq) (simp add: is_mat_def power2_eq_square)
  then have "flatten P' = flatten P" by (simp add: flatten_reshape [OF r])
  then show "P' = P"
    using P P' by (intro flatten_inject) (simp_all add: is_mat_def)
qed

lemma transpose_madd:
  "nrows X = nrows Y \<Longrightarrow> ncols X = ncols Y \<Longrightarrow>
   transpose_m (madd X Y) = madd (transpose_m X) (transpose_m Y)"
  by (rule mat_eqI) simp_all

lemma transpose_smul: "transpose_m (smul g X) = smul g (transpose_m X)"
  by (rule mat_eqI) simp_all

lemma dims_closed_loop [simp]:
  "nrows (closed_loop lqr K) = nrows (lqr_A lqr)" "ncols (closed_loop lqr K) = ncols (lqr_A lqr)"
  "wf_mat (closed_loop lqr K)"
  by (simp_all add: closed_loop_def)

lemma transpose_lyapunov_rhs:
  assumes "lqr_shapes n m lqr" "is_mat m n K" "is_mat n n P"
    and "symmetric (lqr_Q lqr)" "symmetric (lqr_R lqr)"
  shows "transpose_m (lyapunov_rhs lqr K P) = lyapunov_rhs lqr K (transpose_m P)"
proof -
  note s = lqr_shapesD [OF assms(1)] and k = is_matD [OF assms(2)] and p = is_matD [OF assms(3)]
  let ?D = "closed_loop lqr K"
  have "transpose_m (mmul (mmul (transpose_m K) (lqr_R lqr)) K)
        = mmul (transpose_m K) (mmul (transpose_m (lqr_R lqr)) (transpose_m (transpose_m K)))"
    using s k by (simp add: transpose_mmul)
  also have "\<dots> = mmul (transpose_m K) (mmul (lqr_R lqr) K)"
    using assms(5) k by (simp add: symmetric_def transpose_transpose)
  also have "\<dots> = mmul (mmul (transpose_m K) (lqr_R lqr)) K"
    using s k by (simp add: mmul_assoc)
  finally have L: "transpose_m (lyap_L lqr K) = lyap_L lqr K"
    using assms(4) s k by (simp add: lyap_L_def transpose_madd symmetric_def)
  have "transpose_m (mmul (mmul (transpose_m ?D) P) ?D)
        = mmul (transpose_m ?D) (mmul (transpose_m P) (transpose_m (transpose_m ?D)))"
    using s p by (simp add: transpose_mmul)
  also have "\<dots> = mmul (transpose_m ?D) (mmul (transpose_m P) ?D)"
    by (simp add: transpose_transpose)
  also have "\<dots> = mmul (mmul (transpose_m ?D) (transpose_m P)) ?D"
    using s p by (simp add: mmul_assoc)
  finally show ?thesis
    using s p by (simp add: lyapunov_rhs_def transpose_madd transpose_smul L)
qed

text \<open>
  C6. When \<open>Q\<close> and \<open>R\<close> are symmetric and the system matrix is nonsingular,
  \<^verbatim>\<open>compute_lqr_P\<close> returns a symmetric matrix: the transpose of the solution solves the same
  linear system, whose solution is unique.
\<close>

theorem compute_lqr_P_symmetric:
  assumes "lqr_shapes n m lqr" "is_mat m n K" "nonsingular (system_matrix lqr K)"
    and "symmetric (lqr_Q lqr)" "symmetric (lqr_R lqr)"
  shows "\<exists>P. compute_lqr_P lqr K = Inr P \<and> symmetric P"
proof -
  from compute_lqr_P_nonsingular [OF assms(1-3)]
  obtain P where P: "compute_lqr_P lqr K = Inr P" by blast
  note r = compute_lqr_P_Inr [OF assms(1,2) P]
  have Pt: "is_mat n n (transpose_m P)"
    using r(1) by (simp add: is_mat_def)
  have "P = lyapunov_rhs lqr K P"
    using lyapunov_of_vectorised [OF assms(1,2) r(1)] r(2) by simp
  then have "transpose_m P = transpose_m (lyapunov_rhs lqr K P)" by simp
  also have "\<dots> = lyapunov_rhs lqr K (transpose_m P)"
    by (rule transpose_lyapunov_rhs [OF assms(1,2) r(1) assms(4,5)])
  finally have "mvmul (system_matrix lqr K) (flatten (transpose_m P)) = flatten (lyap_L lqr K)"
    using lyapunov_of_vectorised [OF assms(1,2) Pt] by simp
  from r(3) [OF Pt this] P show ?thesis
    by (auto simp: symmetric_def)
qed

lemma ex_K_shape: "is_mat 1 2 ex_K"
  by code_simp

lemma ex_system_matrix: "system_matrix ex_lqr ex_K = ex_M"
  using intermediate_results_fit [OF ex_shapes ex_K_shape] by (simp add: ex_intermediate)

lemma ex_nonsingular: "nonsingular (system_matrix ex_lqr ex_K)"
  unfolding ex_system_matrix by (rule solve_Inr_nonsingular [OF _ ex_solve]) code_simp

theorem lyapunov_consistency_witness:
  "lqr_shapes 2 1 ex_lqr \<and> is_mat 1 2 ex_K \<and> nonsingular (system_matrix ex_lqr ex_K) \<and>
   compute_lqr_P ex_lqr ex_K = Inr ex_P \<and> ex_P = lyapunov_rhs ex_lqr ex_K ex_P"
  using lyapunov_consistency [OF ex_shapes ex_K_shape ex_nonsingular]
    ex_shapes ex_K_shape ex_nonsingular
  by (simp add: ex_compute_lqr_P)

lemma ex_symmetric: "symmetric (lqr_Q ex_lqr)" "symmetric (lqr_R ex_lqr)"
  by code_simp+

theorem compute_lqr_P_symmetric_witness:
  "lqr_shapes 2 1 ex_lqr \<and> is_mat 1 2 ex_K \<and> nonsingular (system_matrix ex_lqr ex_K) \<and>
   symmetric (lqr_Q ex_lqr) \<and> symmetric (lqr_R ex_lqr) \<and>
   compute_lqr_P ex_lqr ex_K = Inr ex_P \<and> symmetric ex_P"
  using compute_lqr_P_symmetric [OF ex_shapes ex_K_shape ex_nonsingular ex_symmetric]
    ex_shapes ex_K_shape ex_nonsingular ex_symmetric
  by (simp add: ex_compute_lqr_P)

section \<open>The Riccati iteration\<close>

declare riccati_loop.simps [simp del]


lemma dims_gain_matrix [simp]:
  "nrows (gain_matrix lqr P) = nrows (lqr_R lqr)" "ncols (gain_matrix lqr P) = ncols (lqr_R lqr)"
  "wf_mat (gain_matrix lqr P)"
  by (simp_all add: gain_matrix_def)

lemma compute_riccati_gain_fit:
  assumes "lqr_shapes n m lqr" "nrows P = n" "ncols P = n"
  shows "compute_riccati_gain P (lqr_A lqr) (lqr_B lqr) (lqr_R lqr) (lqr_gamma lqr)
         = riccati_gain lqr P"
proof (cases "inv_m (gain_matrix lqr P)")
  case (Inl e)
  then show ?thesis
    using lqr_shapesD [OF assms(1)] assms(2,3)
    by (simp add: compute_riccati_gain_def riccati_gain_def gain_matrix_def matmul_fits
        add_same_shape)
next
  case (Inr Ri)
  note i = inv_m_Inr [OF _ Inr, simplified]
  show ?thesis
    using lqr_shapesD [OF assms(1)] assms(2,3) i(3,4) Inr
    by (simp add: compute_riccati_gain_def riccati_gain_def gain_matrix_def matmul_fits
        add_same_shape)
qed

lemma riccati_gain_Inr:
  assumes "lqr_shapes n m lqr" "riccati_gain lqr P = Inr K"
  shows "is_mat m n K"
  using assms lqr_shapesD [OF assms(1)]
  by (cases "inv_m (gain_matrix lqr P)")
     (auto simp: riccati_gain_def is_mat_def dest: inv_m_Inr(3) [rotated])

lemma compute_riccati_rhs_fit:
  assumes "lqr_shapes n m lqr" "nrows P = n" "ncols P = n" "is_mat m n K"
  shows "compute_riccati_rhs (lqr_A lqr) (lqr_B lqr) (lqr_Q lqr) (lqr_R lqr) (lqr_gamma lqr) K P
         = Inr (riccati_rhs lqr K P)"
  using lqr_shapesD [OF assms(1)] assms(2,3) is_matD [OF assms(4)]
  by (simp add: compute_riccati_rhs_def riccati_rhs_def Let_def matmul_fits add_same_shape
      sub_same_shape)

lemma dims_riccati_rhs [simp]:
  "nrows (riccati_rhs lqr K P) = nrows (lqr_Q lqr)" "ncols (riccati_rhs lqr K P) = ncols (lqr_Q lqr)"
  by (simp_all add: riccati_rhs_def Let_def)

lemma riccati_loop_iterate:
  assumes "lqr_shapes n m lqr"
  shows "nrows P = n \<Longrightarrow> ncols P = n \<Longrightarrow> riccati_gain lqr P = Inr K \<Longrightarrow> k = nat (N - it) \<Longrightarrow>
         riccati_loop (lqr_A lqr) (lqr_B lqr) (lqr_Q lqr) (lqr_R lqr) (lqr_gamma lqr) N it P K
         = (case riccati_iterate k lqr P of
              Inl e \<Rightarrow> Inl e
            | Inr P' \<Rightarrow> riccati_gain lqr P')"
proof (induction k arbitrary: it P K)
  case 0
  then have "\<not> it < N" by simp
  then show ?case
    by (subst riccati_loop.simps) (simp add: "0.prems"(3))
next
  case (Suc k)
  then have lt: "it < N" and k: "k = nat (N - (it + 1))" by simp_all
  note s = lqr_shapesD [OF assms]
  have K: "is_mat m n K" by (rule riccati_gain_Inr [OF assms Suc.prems(3)])
  let ?P' = "riccati_rhs lqr K P"
  have P': "nrows ?P' = n" "ncols ?P' = n" using s by simp_all
  show ?case
  proof (cases "riccati_gain lqr ?P'")
    case (Inl e)
    have "riccati_iterate k lqr ?P' = Inr ?P' \<or> riccati_iterate k lqr ?P' = Inl e"
      using Inl by (cases k) simp_all
    then show ?thesis
      using lt Inl
      by (subst riccati_loop.simps)
         (auto simp: compute_riccati_rhs_fit [OF assms Suc.prems(1,2) K]
           compute_riccati_gain_fit [OF assms P'] Suc.prems(3))
  next
    case (Inr K')
    from Suc.IH [OF P' Inr k] lt show ?thesis
      by (subst riccati_loop.simps)
         (simp add: compute_riccati_rhs_fit [OF assms Suc.prems(1,2) K]
           compute_riccati_gain_fit [OF assms P'] Suc.prems(3) Inr)
  qed
qed

lemma solve_lqr_linear_riccati:
  assumes "lqr_shapes n m lqr"
  shows "solve_lqr_linear lqr (int k) = riccati_solution k lqr"
proof -
  note s = lqr_shapesD [OF assms]
  let ?P = "eye (nrows (lqr_Q lqr))"
  have P: "nrows ?P = n" "ncols ?P = n" using s by simp_all
  show ?thesis
  proof (cases "riccati_gain lqr ?P")
    case (Inl e)
    then show ?thesis
      by (cases k)
         (simp_all add: solve_lqr_linear_def parse_lqr_def Let_def riccati_solution_def
           compute_riccati_gain_fit [OF assms P])
  next
    case (Inr K)
    from riccati_loop_iterate [OF assms P Inr, of k "int k" 0] show ?thesis
      by (simp add: solve_lqr_linear_def parse_lqr_def Let_def riccati_solution_def
          compute_riccati_gain_fit [OF assms P] Inr)
  qed
qed

text \<open>
  C2. On a problem of consistent dimensions, \<^verbatim>\<open>solve_lqr_linear\<close> with \<open>max_iterations = k \<ge> 0\<close>
  performs exactly \<open>k\<close> Riccati updates from \<open>P\<^sub>0 = I\<close>, each one the gain of the current
  \<open>P\<close> followed by the right-hand side, and returns the gain of the last \<open>P\<close>; it stops
  earlier only when an inverse raises.
\<close>

theorem solve_lqr_linear_iterates:
  assumes "lqr_shapes n m lqr"
  shows "solve_lqr_linear lqr (int k) = riccati_solution k lqr"
  using assms by (rule solve_lqr_linear_riccati)

text \<open>
  In exact arithmetic, with \<open>max_iterations = 0\<close> and \<open>R + gamma * B\<^sup>T B\<close> nonsingular, the
  loop body never runs and \<^verbatim>\<open>solve_lqr_linear\<close> returns the gain of the identity
  initialisation, \<open>gamma * (R + gamma * B\<^sup>T B)\<^sup>-\<^sup>1 B\<^sup>T A\<close>. Whether the inversion raises on
  doubles is not decided here.
\<close>

lemma solve_lqr_linear_zero_budget:
  assumes "lqr_shapes n m lqr"
    and "nonsingular (madd (lqr_R lqr)
           (smul (lqr_gamma lqr) (mmul (transpose_m (lqr_B lqr)) (lqr_B lqr))))"
  shows "\<exists>Ri. inv_m (madd (lqr_R lqr)
                  (smul (lqr_gamma lqr) (mmul (transpose_m (lqr_B lqr)) (lqr_B lqr)))) = Inr Ri
           \<and> mmul (madd (lqr_R lqr)
                  (smul (lqr_gamma lqr) (mmul (transpose_m (lqr_B lqr)) (lqr_B lqr)))) Ri = eye m
           \<and> solve_lqr_linear lqr 0
               = Inr (mmul (mmul (smul (lqr_gamma lqr) Ri) (transpose_m (lqr_B lqr))) (lqr_A lqr))"
proof -
  note s = lqr_shapesD [OF assms(1)]
  let ?G = "madd (lqr_R lqr) (smul (lqr_gamma lqr) (mmul (transpose_m (lqr_B lqr)) (lqr_B lqr)))"
  have G: "gain_matrix lqr (eye (nrows (lqr_Q lqr))) = ?G"
    using s by (simp add: gain_matrix_def mmul_eye_right)
  from inv_m_nonsingular [OF _ _ assms(2)] s obtain Ri where Ri: "inv_m ?G = Inr Ri"
    by auto
  have "solve_lqr_linear lqr 0 = riccati_gain lqr (eye (nrows (lqr_Q lqr)))"
    using solve_lqr_linear_riccati [OF assms(1), of 0] by (simp add: riccati_solution_def)
  also have "\<dots> = Inr (mmul (mmul (mmul (smul (lqr_gamma lqr) Ri) (transpose_m (lqr_B lqr)))
                      (eye (nrows (lqr_Q lqr)))) (lqr_A lqr))"
    by (simp add: riccati_gain_def G Ri)
  also have "mmul (mmul (smul (lqr_gamma lqr) Ri) (transpose_m (lqr_B lqr))) (eye (nrows (lqr_Q lqr)))
             = mmul (smul (lqr_gamma lqr) Ri) (transpose_m (lqr_B lqr))"
    using s by (simp add: mmul_eye_right)
  finally show ?thesis using Ri inv_m_Inr(5) [OF _ Ri] s by simp
qed

lemma ex_gain_matrix_inv:
  "inv_m (madd (lqr_R ex_lqr)
           (smul (lqr_gamma ex_lqr) (mmul (transpose_m (lqr_B ex_lqr)) (lqr_B ex_lqr))))
   = Inr ex_Ri"
  by code_simp

lemma ex_gain_matrix_nonsingular:
  "nonsingular (madd (lqr_R ex_lqr)
           (smul (lqr_gamma ex_lqr) (mmul (transpose_m (lqr_B ex_lqr)) (lqr_B ex_lqr))))"
  by (rule inv_m_Inr(6) [OF _ ex_gain_matrix_inv]) simp

lemma ex_K0_eq:
  "mmul (mmul (smul (lqr_gamma ex_lqr) ex_Ri) (transpose_m (lqr_B ex_lqr))) (lqr_A ex_lqr) = ex_K0"
  by code_simp

lemma solve_lqr_linear_zero_budget_instance:
  "lqr_shapes 2 1 ex_lqr \<and>
   nonsingular (madd (lqr_R ex_lqr)
      (smul (lqr_gamma ex_lqr) (mmul (transpose_m (lqr_B ex_lqr)) (lqr_B ex_lqr)))) \<and>
   solve_lqr_linear ex_lqr 0 = Inr ex_K0"
  using solve_lqr_linear_zero_budget [OF ex_shapes ex_gain_matrix_nonsingular]
    ex_shapes ex_gain_matrix_nonsingular
  by (simp add: ex_gain_matrix_inv ex_K0_eq)

lemma ex_riccati_gain_0: "riccati_gain ex_lqr (eye (nrows (lqr_Q ex_lqr))) = Inr ex_K0"
  by code_simp

lemma ex_riccati_rhs_0: "riccati_rhs ex_lqr ex_K0 (eye (nrows (lqr_Q ex_lqr))) = ex_P1"
  by code_simp

lemma ex_riccati_gain_1: "riccati_gain ex_lqr ex_P1 = Inr ex_K1"
  by code_simp

lemma ex_riccati_solution: "riccati_solution (Suc 0) ex_lqr = Inr ex_K1"
  by (simp add: riccati_solution_def ex_riccati_gain_0 ex_riccati_rhs_0 ex_riccati_gain_1)

theorem solve_lqr_linear_iterates_witness:
  "lqr_shapes 2 1 ex_lqr \<and> solve_lqr_linear ex_lqr 1 = Inr ex_K1"
  using solve_lqr_linear_iterates [OF ex_shapes, of "Suc 0"] ex_shapes
  by (simp add: ex_riccati_solution)

section \<open>State value and action value\<close>

lemma dims_block_m [simp]:
  "nrows (block_m a b c d) = nrows a + nrows c" "ncols (block_m a b c d) = ncols a + ncols b"
  "wf_mat (block_m a b c d)"
  by (simp_all add: block_m_def)

lemma block_fits:
  assumes "nrows a = nrows b" "nrows c = nrows d" "ncols a + ncols b = ncols c + ncols d"
  shows "block (Inr a) (Inr b) (Inr c) (Inr d) = Inr (block_m a b c d)"
  using assms
  by (auto simp: block_def hstack_def vstack_def block_m_def intro!: mk_mat_cong)

lemma sum_lessThan_add:
  fixes f :: "nat \<Rightarrow> real"
  shows "(\<Sum>i<a + b. f i) = (\<Sum>i<a. f i) + (\<Sum>i<b. f (a + i))"
  by (induction b) (simp_all add: add.assoc)

lemma length_vneg [simp]: "length (vneg x) = length x"
  by (simp add: vneg_def)

lemma nth_vneg [simp]: "i < length x \<Longrightarrow> vneg x ! i = - x ! i"
  by (simp add: vneg_def)

lemma quad_form_bil:
  assumes "length x = nrows M" "length x = ncols M"
  shows "quad_form x M = Inr (- bil x M x)"
proof -
  have "dot (vmmul (vneg x) M) x = (\<Sum>j<ncols M. (\<Sum>i<nrows M. - x ! i * ent M i j) * x ! j)"
    using assms by (simp add: dot_def vmmul_def)
  also have "\<dots> = (\<Sum>j<ncols M. \<Sum>i<nrows M. - (x ! i * ent M i j * x ! j))"
    by (simp add: sum_distrib_right)
  also have "\<dots> = (\<Sum>i<nrows M. \<Sum>j<ncols M. - (x ! i * ent M i j * x ! j))"
    by (rule sum.swap)
  also have "\<dots> = - bil x M x"
    by (simp add: bil_def sum_negf)
  finally show ?thesis
    using assms by (simp add: quad_form_def vecmat_def vecvec_def vmmul_def)
qed

lemma bil_block:
  assumes "nrows a = length x" "nrows b = length x" "nrows c = length u" "nrows d = length u"
    and "ncols a = length y" "ncols c = length y" "ncols b = length v" "ncols d = length v"
  shows "bil (x @ u) (block_m a b c d) (y @ v) = bil x a y + bil x b v + bil u c y + bil u d v"
proof -
  have top: "(\<Sum>j<ncols a + ncols b. (x @ u) ! i * ent (block_m a b c d) i j * (y @ v) ! j)
        = (\<Sum>j<ncols a. x ! i * ent a i j * y ! j) + (\<Sum>j<ncols b. x ! i * ent b i j * v ! j)"
    if "i < nrows a" for i
    using that assms by (simp add: sum_lessThan_add block_m_def nth_append)
  have bot: "(\<Sum>j<ncols a + ncols b. (x @ u) ! (nrows a + i) * ent (block_m a b c d) (nrows a + i) j * (y @ v) ! j)
        = (\<Sum>j<ncols c. u ! i * ent c i j * y ! j) + (\<Sum>j<ncols d. u ! i * ent d i j * v ! j)"
    if "i < nrows c" for i
    using that assms by (simp add: sum_lessThan_add block_m_def nth_append)
  have "bil (x @ u) (block_m a b c d) (y @ v)
        = (\<Sum>i<nrows a. \<Sum>j<ncols a + ncols b.
             (x @ u) ! i * ent (block_m a b c d) i j * (y @ v) ! j)
          + (\<Sum>i<nrows c. \<Sum>j<ncols a + ncols b.
               (x @ u) ! (nrows a + i) * ent (block_m a b c d) (nrows a + i) j * (y @ v) ! j)"
    by (simp only: bil_def dims_block_m sum_lessThan_add [of _ "nrows a" "nrows c"])
  also have "\<dots> = (\<Sum>i<nrows a. (\<Sum>j<ncols a. x ! i * ent a i j * y ! j)
                                  + (\<Sum>j<ncols b. x ! i * ent b i j * v ! j))
          + (\<Sum>i<nrows c. (\<Sum>j<ncols c. u ! i * ent c i j * y ! j)
                            + (\<Sum>j<ncols d. u ! i * ent d i j * v ! j))"
    by (intro arg_cong2 [of _ _ _ _ "(+)"] sum.cong refl) (simp_all only: top bot lessThan_iff)
  also have "\<dots> = bil x a y + bil x b v + bil u c y + bil u d v"
    using assms by (simp add: bil_def sum.distrib)
  finally show ?thesis .
qed

lemma bil_mvmul_right:
  assumes "ncols M = nrows K"
  shows "bil x M (mvmul K y) = bil x (mmul M K) y"
proof -
  have "(\<Sum>j<ncols M. x ! i * ent M i j * mvmul K y ! j)
        = (\<Sum>l<ncols K. x ! i * ent (mmul M K) i l * y ! l)" if i: "i < nrows M" for i
  proof -
    have "(\<Sum>j<ncols M. x ! i * ent M i j * mvmul K y ! j)
          = (\<Sum>j<ncols M. \<Sum>l<ncols K. x ! i * ent M i j * ent K j l * y ! l)"
      using assms by (simp add: sum_distrib_left mult.assoc)
    also have "\<dots> = (\<Sum>l<ncols K. \<Sum>j<ncols M. x ! i * ent M i j * ent K j l * y ! l)"
      by (rule sum.swap)
    also have "\<dots> = (\<Sum>l<ncols K. x ! i * ent (mmul M K) i l * y ! l)"
      using i by (simp add: sum_distrib_left sum_distrib_right mult.assoc)
    finally show ?thesis .
  qed
  then show ?thesis by (simp add: bil_def)
qed

lemma bil_mvmul_left:
  assumes "nrows M = nrows K"
  shows "bil (mvmul K x) M y = bil x (mmul (transpose_m K) M) y"
proof -
  have "bil (mvmul K x) M y
        = (\<Sum>i<nrows K. \<Sum>j<ncols M. \<Sum>l<ncols K. ent K i l * x ! l * ent M i j * y ! j)"
    using assms by (simp add: bil_def sum_distrib_right)
  also have "\<dots> = (\<Sum>i<nrows K. \<Sum>l<ncols K. \<Sum>j<ncols M. ent K i l * x ! l * ent M i j * y ! j)"
    by (intro sum.cong refl sum.swap)
  also have "\<dots> = (\<Sum>l<ncols K. \<Sum>i<nrows K. \<Sum>j<ncols M. ent K i l * x ! l * ent M i j * y ! j)"
    by (rule sum.swap)
  also have "\<dots> = (\<Sum>l<ncols K. \<Sum>j<ncols M. \<Sum>i<nrows K. ent K i l * x ! l * ent M i j * y ! j)"
    by (intro sum.cong refl sum.swap)
  also have "\<dots> = (\<Sum>l<ncols K. \<Sum>j<ncols M. x ! l * (\<Sum>i<nrows K. ent K i l * ent M i j) * y ! j)"
    by (intro sum.cong refl) (simp add: sum_distrib_left sum_distrib_right mult_ac)
  also have "\<dots> = bil x (mmul (transpose_m K) M) y"
    by (simp add: bil_def)
  finally show ?thesis .
qed

lemma bil_vneg_right: "length u = ncols M \<Longrightarrow> bil x M (vneg u) = - bil x M u"
  by (simp add: bil_def sum_negf)

lemma bil_vneg_left: "length u = nrows M \<Longrightarrow> bil (vneg u) M y = - bil u M y"
  by (simp add: bil_def sum_negf)

lemma bil_madd:
  "nrows X = nrows Y \<Longrightarrow> ncols X = ncols Y \<Longrightarrow> bil x (madd X Y) y = bil x X y + bil x Y y"
  by (simp add: bil_def algebra_simps sum.distrib)

lemma bil_msub:
  "nrows X = nrows Y \<Longrightarrow> ncols X = ncols Y \<Longrightarrow> bil x (msub X Y) y = bil x X y - bil x Y y"
  by (simp add: bil_def algebra_simps sum_subtractf)

lemma mmul_smul_left: "mmul (smul g X) Y = smul g (mmul X Y)"
  by (rule mat_eqI) (simp_all add: sum_distrib_left mult.assoc)

lemma mmul_smul_right: "ncols X = nrows Y \<Longrightarrow> mmul X (smul g Y) = smul g (mmul X Y)"
  by (rule mat_eqI) (simp_all add: sum_distrib_left mult_ac)

lemma mmul_madd_left:
  "nrows X = nrows Y \<Longrightarrow> ncols X = ncols Y \<Longrightarrow>
   mmul (madd X Y) Z = madd (mmul X Z) (mmul Y Z)"
  by (rule mat_eqI) (simp_all add: algebra_simps sum.distrib)

lemma mmul_madd_right:
  "nrows Y = nrows Z \<Longrightarrow> ncols Y = ncols Z \<Longrightarrow> ncols X = nrows Y \<Longrightarrow>
   mmul X (madd Y Z) = madd (mmul X Y) (mmul X Z)"
  by (rule mat_eqI) (simp_all add: algebra_simps sum.distrib)

lemma compute_lqr_Q_matrix_fit:
  assumes "lqr_shapes n m lqr" "compute_lqr_P lqr K = Inr P" "nrows P = n" "ncols P = n"
  shows "compute_lqr_Q_matrix lqr K = Inr (Q_matrix lqr P)"
  using lqr_shapesD [OF assms(1)] assms(3,4)
  by (simp add: compute_lqr_Q_matrix_def parse_lqr_def assms(2) Q_matrix_def Let_def
      matmul_fits add_same_shape block_fits)

lemma bellman_matrix:
  assumes "lqr_shapes n m lqr" "is_mat m n K" "nrows P = n" "ncols P = n"
  defines "gAt \<equiv> smul (lqr_gamma lqr) (transpose_m (lqr_A lqr))"
    and "gBt \<equiv> smul (lqr_gamma lqr) (transpose_m (lqr_B lqr))"
  shows "madd (msub (msub (madd (lqr_Q lqr) (mmul (mmul gAt P) (lqr_A lqr)))
                          (mmul (mmul (mmul gAt P) (lqr_B lqr)) K))
                    (mmul (transpose_m K) (mmul (mmul gBt P) (lqr_A lqr))))
              (mmul (mmul (transpose_m K) (madd (lqr_R lqr) (mmul (mmul gBt P) (lqr_B lqr)))) K)
         = lyapunov_rhs lqr K P"
proof -
  note s = lqr_shapesD [OF assms(1)] is_matD [OF assms(2)]
  define g where "g = lqr_gamma lqr"
  define A where "A = lqr_A lqr"
  define B where "B = lqr_B lqr"
  define At where "At = transpose_m A"
  define Bt where "Bt = transpose_m B"
  define Kt where "Kt = transpose_m K"
  define kb where "kb = mmul Kt Bt"
  define BK where "BK = mmul B K"
  define X1 where "X1 = mmul (mmul At P) A"
  define X2 where "X2 = mmul (mmul At P) BK"
  define X3 where "X3 = mmul (mmul kb P) A"
  define X4 where "X4 = mmul (mmul kb P) BK"
  define KRK where "KRK = mmul (mmul Kt (lqr_R lqr)) K"
  note defs = g_def A_def B_def At_def Bt_def Kt_def kb_def BK_def
  have d: "nrows A = n" "ncols A = n" "nrows B = n" "ncols B = m" "nrows At = n" "ncols At = n"
    "nrows Bt = m" "ncols Bt = n" "nrows Kt = n" "ncols Kt = m" "nrows kb = n" "ncols kb = n"
    "nrows BK = n" "ncols BK = n" "nrows K = m" "ncols K = n"
    using s by (simp_all add: defs)
  have t1: "mmul (mmul (smul g At) P) A = smul g X1"
    by (simp add: mmul_smul_left X1_def)
  have "mmul (mmul (mmul (smul g At) P) B) K = smul g (mmul (mmul (mmul At P) B) K)"
    by (simp add: mmul_smul_left)
  also have "mmul (mmul (mmul At P) B) K = X2"
    using d assms(3,4) by (simp add: X2_def BK_def mmul_assoc)
  finally have t2: "mmul (mmul (mmul (smul g At) P) B) K = smul g X2" .
  have "mmul Kt (mmul (mmul (smul g Bt) P) A) = smul g (mmul Kt (mmul (mmul Bt P) A))"
    using d assms(3,4) by (simp add: mmul_smul_left mmul_smul_right)
  also have "mmul Kt (mmul (mmul Bt P) A) = X3"
    using d assms(3,4) by (simp add: X3_def kb_def mmul_assoc)
  finally have t3: "mmul Kt (mmul (mmul (smul g Bt) P) A) = smul g X3" .
  have "mmul (mmul Kt (madd (lqr_R lqr) (mmul (mmul (smul g Bt) P) B))) K
        = mmul (madd (mmul Kt (lqr_R lqr)) (mmul Kt (smul g (mmul (mmul Bt P) B)))) K"
    using d s by (simp add: mmul_smul_left mmul_madd_right)
  also have "\<dots> = madd KRK (mmul (smul g (mmul Kt (mmul (mmul Bt P) B))) K)"
    using d s by (simp add: mmul_madd_left mmul_smul_right KRK_def)
  also have "mmul (smul g (mmul Kt (mmul (mmul Bt P) B))) K
             = smul g (mmul (mmul Kt (mmul (mmul Bt P) B)) K)"
    by (simp add: mmul_smul_left)
  also have "mmul (mmul Kt (mmul (mmul Bt P) B)) K = X4"
    using d assms(3,4) by (simp add: X4_def kb_def BK_def mmul_assoc)
  finally have t4: "mmul (mmul Kt (madd (lqr_R lqr) (mmul (mmul (smul g Bt) P) B))) K
                    = madd KRK (smul g X4)" .
  have dX: "nrows X1 = n" "ncols X1 = n" "nrows X2 = n" "ncols X2 = n" "nrows X3 = n"
    "ncols X3 = n" "nrows X4 = n" "ncols X4 = n" "nrows KRK = n" "ncols KRK = n"
    using d by (simp_all add: X1_def X2_def X3_def X4_def KRK_def)
  have "lyapunov_rhs lqr K P
        = madd (madd (lqr_Q lqr) KRK) (smul g (madd (msub (msub X1 X2) X3) X4))"
    using closed_loop_expand [OF assms(1-4)]
    by (simp add: lyapunov_rhs_def lyap_L_def defs X1_def X2_def X3_def X4_def KRK_def)
  also have "\<dots> = madd (msub (msub (madd (lqr_Q lqr) (smul g X1)) (smul g X2)) (smul g X3))
                        (madd KRK (smul g X4))"
    using s dX by (intro mat_eqI) (simp_all add: algebra_simps)
  finally show ?thesis
    unfolding gAt_def gBt_def
    by (simp add: t1 t2 t3 t4 defs [symmetric])
qed

lemma value_Q_consistency_Inr:
  assumes "lqr_shapes n m lqr" "is_mat m n K" "length x = n" "compute_lqr_P lqr K = Inr P"
  shows "compute_lqr_V x lqr K = Inr (- bil x P x)"
    and "compute_lqr_Q (x @ policy_action K x) lqr K = Inr (- bil x P x)"
proof -
  note s = lqr_shapesD [OF assms(1)] is_matD [OF assms(2)]
  note r = compute_lqr_P_Inr [OF assms(1,2,4)]
  note p = is_matD [OF r(1)]
  show "compute_lqr_V x lqr K = Inr (- bil x P x)"
    using p assms(3) by (simp add: compute_lqr_V_def assms(4) quad_form_bil)
  define gAt where "gAt = smul (lqr_gamma lqr) (transpose_m (lqr_A lqr))"
  define gBt where "gBt = smul (lqr_gamma lqr) (transpose_m (lqr_B lqr))"
  define M11 where "M11 = madd (lqr_Q lqr) (mmul (mmul gAt P) (lqr_A lqr))"
  define M12 where "M12 = mmul (mmul gAt P) (lqr_B lqr)"
  define M21 where "M21 = mmul (mmul gBt P) (lqr_A lqr)"
  define M22 where "M22 = madd (lqr_R lqr) (mmul (mmul gBt P) (lqr_B lqr))"
  define Kx where "Kx = mvmul K x"
  have MQ: "Q_matrix lqr P = block_m M11 M12 M21 M22"
    by (simp add: Q_matrix_def Let_def M11_def M12_def M21_def M22_def gAt_def gBt_def)
  have d: "nrows M11 = n" "ncols M11 = n" "nrows M12 = n" "ncols M12 = m"
    "nrows M21 = m" "ncols M21 = n" "nrows M22 = m" "ncols M22 = m" "length Kx = m"
    using s by (simp_all add: M11_def M12_def M21_def M22_def gAt_def gBt_def Kx_def)
  let ?z = "x @ policy_action K x"
  have u: "policy_action K x = vneg Kx" by (simp add: policy_action_def Kx_def)
  have "bil ?z (Q_matrix lqr P) ?z
        = bil x M11 x + bil x M12 (vneg Kx) + bil (vneg Kx) M21 x + bil (vneg Kx) M22 (vneg Kx)"
    unfolding MQ u using d assms(3) by (intro bil_block) simp_all
  also have "\<dots> = bil x M11 x - bil x M12 Kx - bil Kx M21 x + bil Kx M22 Kx"
    using d by (simp add: bil_vneg_left bil_vneg_right)
  also have "\<dots> = bil x M11 x - bil x (mmul M12 K) x - bil x (mmul (transpose_m K) M21) x
                     + bil x (mmul (mmul (transpose_m K) M22) K) x"
    unfolding Kx_def using d s by (simp add: bil_mvmul_left bil_mvmul_right mmul_assoc)
  also have "\<dots> = bil x (madd (msub (msub M11 (mmul M12 K)) (mmul (transpose_m K) M21))
                              (mmul (mmul (transpose_m K) M22) K)) x"
    using d s by (simp add: bil_madd bil_msub)
  also have "madd (msub (msub M11 (mmul M12 K)) (mmul (transpose_m K) M21))
                  (mmul (mmul (transpose_m K) M22) K) = lyapunov_rhs lqr K P"
    unfolding M11_def M12_def M21_def M22_def gAt_def gBt_def
    by (rule bellman_matrix [OF assms(1,2) p(2,3)])
  also have "\<dots> = P"
    using lyapunov_of_vectorised [OF assms(1,2) r(1)] r(2) by simp
  finally have "bil ?z (Q_matrix lqr P) ?z = bil x P x" .
  moreover have "length ?z = n + m"
    using assms(3) s by (simp add: policy_action_def)
  ultimately show "compute_lqr_Q ?z lqr K = Inr (- bil x P x)"
    using s by (simp add: compute_lqr_Q_def compute_lqr_Q_matrix_fit [OF assms(1,4) p(2,3)]
        quad_form_bil Q_matrix_def Let_def)
qed

text \<open>
  C4. On a problem of consistent dimensions, with a gain whose system matrix is nonsingular
  and a state \<open>x\<close>, the action value at \<open>z = [x; u]\<close> with the policy's own action \<open>u = -K x\<close>
  is the state value at \<open>x\<close>: both calls return the same number.
\<close>

theorem value_Q_consistency:
  assumes "lqr_shapes n m lqr" "is_mat m n K" "length x = n"
    and "nonsingular (system_matrix lqr K)"
  shows "\<exists>v. compute_lqr_V x lqr K = Inr v
           \<and> compute_lqr_Q (x @ policy_action K x) lqr K = Inr v"
proof -
  from compute_lqr_P_nonsingular [OF assms(1,2,4)]
  obtain P where "compute_lqr_P lqr K = Inr P" by blast
  from value_Q_consistency_Inr [OF assms(1-3) this] show ?thesis by blast
qed

lemma ex_Q_matrix: "Q_matrix ex_lqr ex_P = ex_MQ"
  by code_simp

lemma ex_P_dims: "nrows ex_P = 2" "ncols ex_P = 2"
  by (simp_all add: ex_P_def)

lemma ex_compute_lqr_Q_matrix: "compute_lqr_Q_matrix ex_lqr ex_K = Inr ex_MQ"
  using compute_lqr_Q_matrix_fit [OF ex_shapes ex_compute_lqr_P ex_P_dims]
  by (simp add: ex_Q_matrix)

lemma ex_policy_action: "[1, 2] @ policy_action ex_K [1, 2] = [1, 2, - (5 / 2)]"
  by code_simp

lemma ex_quad_form_Q: "quad_form [1, 2, - (5 / 2)] ex_MQ = Inr (- (968 / 51))"
  by code_simp

lemma ex_compute_lqr_Q: "compute_lqr_Q [1, 2, - (5 / 2)] ex_lqr ex_K = Inr (- (968 / 51))"
  by (simp add: compute_lqr_Q_def ex_compute_lqr_Q_matrix ex_quad_form_Q)

theorem value_Q_consistency_witness:
  "lqr_shapes 2 1 ex_lqr \<and> is_mat 1 2 ex_K \<and> length [1, 2 :: real] = 2 \<and>
   nonsingular (system_matrix ex_lqr ex_K) \<and>
   compute_lqr_V [1, 2] ex_lqr ex_K = Inr (- (968 / 51)) \<and>
   compute_lqr_Q ([1, 2] @ policy_action ex_K [1, 2]) ex_lqr ex_K = Inr (- (968 / 51))"
  using value_Q_consistency [OF ex_shapes ex_K_shape _ ex_nonsingular, of "[1, 2]"]
    ex_shapes ex_K_shape ex_nonsingular
  by (simp add: ex_compute_lqr_V)

lemma lqg_Q_zero_noise_instance:
  "lqr_shapes 2 1 ex_lqr \<and> lqr_gamma ex_lqr \<noteq> 1 \<and>
   compute_lqg_Q [1, 2, - (5 / 2)] ex_lqr ex_K (zeros 1 1) = Inr (- (968 / 51)) \<and>
   compute_lqr_Q [1, 2, - (5 / 2)] ex_lqr ex_K = Inr (- (968 / 51))"
  using lqg_Q_zero_noise [OF ex_shapes ex_gamma, of "[1, 2, - (5 / 2)]" ex_K] ex_shapes ex_gamma
  by (simp add: ex_compute_lqr_Q)

section \<open>The gradient\<close>

lemma dims_one_hot [simp]:
  "nrows (one_hot m n i) = m" "ncols (one_hot m n i) = n" "wf_mat (one_hot m n i)"
  by (simp_all add: one_hot_def)

lemma reshape_one_hot:
  assumes "i < m * n"
  shows "reshape ((replicate (m * n) 0)[i := 1]) (m, n) = Inr (one_hot m n i)"
proof -
  have "mk_mat m n (\<lambda>r c. (replicate (m * n) 0)[i := 1] ! (r * n + c)) = one_hot m n i"
    unfolding one_hot_def
  proof (rule mk_mat_cong)
    fix r c assume "r < m" "c < n"
    then have "r * n + c < m * n" by (rule index_less)
    then show "(replicate (m * n) 0)[i := 1] ! (r * n + c) = (if r * n + c = i then 1 else 0)"
      using assms by (auto simp: nth_list_update)
  qed
  then show ?thesis by (simp add: reshape_def)
qed

lemma intermediate_results_diff_fit:
  assumes "lqr_shapes n m lqr" "is_mat m n K" "i < m * n"
  shows "compute_lqr_intermediate_results_diff K (lqr_A lqr) (lqr_B lqr) (lqr_R lqr)
           (lqr_gamma lqr) i = Inr (dL_i lqr K i, dM_i lqr K i)"
  using lqr_shapesD [OF assms(1)] is_matD [OF assms(2)] assms(3)
  by (simp add: compute_lqr_intermediate_results_diff_def Let_def shape_def reshape_one_hot
      matmul_fits add_same_shape sub_same_shape dL_i_def dM_i_def)

lemma vadd_same_length: "length x = length y \<Longrightarrow> vadd x y = Inr (vplus x y)"
  by (auto simp: vadd_def bc_dim_def vplus_def intro!: mk_vec_cong)

lemma dims_dL_i [simp]:
  "nrows (dL_i lqr K i) = ncols K" "ncols (dL_i lqr K i) = ncols K"
  by (simp_all add: dL_i_def Let_def)

lemma dims_dM_i [simp]:
  "nrows (dM_i lqr K i) = ncols (lqr_A lqr) * ncols K"
  "ncols (dM_i lqr K i) = nrows (lqr_A lqr) * nrows (lqr_B lqr)"
  by (simp_all add: dM_i_def Let_def)

lemma dims_dP_i [simp]:
  "nrows (dP_i lqr K Minv i) = nrows (lqr_Q lqr)" "ncols (dP_i lqr K Minv i) = ncols (lqr_Q lqr)"
  by (simp_all add: dP_i_def Let_def)

lemma length_vec_dP_i [simp]: "length (vec_dP_i lqr K Minv i) = nrows Minv"
  by (simp add: vec_dP_i_def)

lemma x_dP_x:
  assumes "length x = nrows M" "length x = ncols M"
  shows "lift2 vecvec (vecmat x M) (Inr x) = Inr (bil x M x)"
proof -
  have "dot (vmmul x M) x = (\<Sum>j<ncols M. (\<Sum>i<nrows M. x ! i * ent M i j) * x ! j)"
    using assms by (simp add: dot_def vmmul_def)
  also have "\<dots> = (\<Sum>j<ncols M. \<Sum>i<nrows M. x ! i * ent M i j * x ! j)"
    by (simp add: sum_distrib_right)
  also have "\<dots> = bil x M x"
    unfolding bil_def by (rule sum.swap)
  finally show ?thesis
    using assms by (simp add: vecmat_def vecvec_def vmmul_def)
qed

lemma gradient_entry_fit:
  assumes "lqr_shapes n m lqr" "is_mat m n K" "is_mat m m Sig" "length x = n"
    and "lqr_gamma lqr \<noteq> 1" "inv_m (system_matrix lqr K) = Inr Minv" "i < m * n"
  shows "gradient_entry x K (lqr_A lqr) (lqr_B lqr) (lqr_Q lqr) (lqr_R lqr) (lqr_gamma lqr) Sig
           (lyap_L lqr K) (system_matrix lqr K) Minv i = Inr (dJ_i x lqr K Sig Minv i)"
proof -
  note s = lqr_shapesD [OF assms(1)] is_matD [OF assms(2)] is_matD [OF assms(3)]
  note mi = inv_m_Inr [OF _ assms(6), simplified]
  have dMinv: "nrows Minv = n * n" "ncols Minv = n * n"
    using mi(3,4) s by (simp_all add: power2_eq_square)
  have sol: "solve (system_matrix lqr K) (flatten (dL_i lqr K i))
             = Inr (mvmul Minv (flatten (dL_i lqr K i)))"
    using s by (intro solve_via_inv [OF _ assms(6)]) (simp_all add: power2_eq_square)
  have v1: "lift2 matvec (matmul_e (matmul_e (Inr (mneg Minv)) (Inr (dM_i lqr K i))) (Inr Minv))
              (Inr (flatten (lyap_L lqr K)))
            = Inr (mvmul (mmul (mmul (mneg Minv) (dM_i lqr K i)) Minv) (flatten (lyap_L lqr K)))"
    using s dMinv by (simp add: matmul_fits matvec_def)
  have vec: "lift2 vadd
               (lift2 matvec (matmul_e (matmul_e (Inr (mneg Minv)) (Inr (dM_i lqr K i))) (Inr Minv))
                  (Inr (flatten (lyap_L lqr K))))
               (solve (system_matrix lqr K) (flatten (dL_i lqr K i)))
             = Inr (vec_dP_i lqr K Minv i)"
    unfolding v1 sol using dMinv by (simp add: vadd_same_length vec_dP_i_def)
  have rs: "reshape (vec_dP_i lqr K Minv i) (shape (lqr_Q lqr)) = Inr (dP_i lqr K Minv i)"
    using s dMinv by (simp add: reshape_def shape_def dP_i_def)
  have qf: "lift2 vecvec (vecmat x (dP_i lqr K Minv i)) (Inr x)
            = Inr (bil x (dP_i lqr K Minv i) x)"
    using s assms(4) by (intro x_dP_x) simp_all
  have tr: "matmul_e (matmul_e (matmul_e (Inr Sig) (T (lqr_B lqr))) (Inr (dP_i lqr K Minv i)))
              (Inr (lqr_B lqr))
            = Inr (mmul (mmul (mmul Sig (transpose_m (lqr_B lqr))) (dP_i lqr K Minv i)) (lqr_B lqr))"
    using s by (simp add: matmul_fits)
  show ?thesis
    unfolding gradient_entry_def intermediate_results_diff_fit [OF assms(1,2,7)]
      sum.case prod.case vec rs qf tr dJ_i_def
    using assms(5) by simp
qed

lemma gradient_loop_upt:
  assumes "\<And>i. i < N \<Longrightarrow> gradient_entry x K A B Q R g Sig L M Minv i = Inr (J i)"
  shows "N - k = d \<Longrightarrow> k \<le> N \<Longrightarrow> length dJ = N \<Longrightarrow>
         gradient_loop x K A B Q R g Sig L M Minv [k..<N] dJ
         = Inr (mk_vec N (\<lambda>i. if i < k then dJ ! i else J i))"
proof (induction d arbitrary: k dJ)
  case 0
  then have "k = N" by simp
  then show ?case
    using 0(3) by (simp add: mk_vec_nth [symmetric] cong: mk_vec_cong)
next
  case (Suc d)
  then have k: "k < N" by simp
  have "gradient_loop x K A B Q R g Sig L M Minv [k..<N] dJ
        = gradient_loop x K A B Q R g Sig L M Minv [Suc k..<N] (dJ[k := J k])"
    using k by (simp add: upt_conv_Cons assms)
  also have "\<dots> = Inr (mk_vec N (\<lambda>i. if i < Suc k then dJ[k := J k] ! i else J i))"
    using Suc.prems k by (intro Suc.IH) simp_all
  also have "mk_vec N (\<lambda>i. if i < Suc k then dJ[k := J k] ! i else J i)
             = mk_vec N (\<lambda>i. if i < k then dJ ! i else J i)"
    using Suc.prems(3) by (intro mk_vec_cong) (auto simp: nth_list_update less_Suc_eq)
  finally show ?case .
qed

lemma vneg_mk_vec: "vneg (mk_vec N J) = mk_vec N (\<lambda>i. - J i)"
  by (simp add: vneg_def mk_vec_def)

lemma compute_lqg_gradient_fit:
  assumes "lqr_shapes n m lqr" "is_mat m n K" "is_mat m m Sig" "length x = n"
    and "lqr_gamma lqr \<noteq> 1" "inv_m (system_matrix lqr K) = Inr Minv"
  shows "compute_lqg_gradient x lqr K Sig
         = Inr (mk_vec (m * n) (\<lambda>i. - dJ_i x lqr K Sig Minv i))"
proof -
  note k = is_matD [OF assms(2)]
  have "gradient_loop x K (lqr_A lqr) (lqr_B lqr) (lqr_Q lqr) (lqr_R lqr) (lqr_gamma lqr) Sig
          (lyap_L lqr K) (system_matrix lqr K) Minv [0..<m * n] (replicate (m * n) 0)
        = Inr (mk_vec (m * n) (\<lambda>i. if i < 0 then replicate (m * n) 0 ! i
                                    else dJ_i x lqr K Sig Minv i))"
    by (rule gradient_loop_upt [OF gradient_entry_fit [OF assms] refl]) simp_all
  then show ?thesis
    using k by (simp add: compute_lqg_gradient_def parse_lqr_def
        intermediate_results_fit [OF assms(1,2)] assms(6) Let_def vneg_mk_vec)
qed

text \<open>
  C3. On a problem of consistent dimensions with \<open>gamma \<noteq> 1\<close>, a gain \<open>K\<close> whose system
  matrix \<open>M\<close> is nonsingular, a state \<open>x\<close> and a covariance \<open>Sigma\<close>,
  \<^verbatim>\<open>compute_lqg_gradient\<close> returns the vector of length \<open>rows(K) * cols(K)\<close> whose \<open>i\<close>-th
  component is the negation of \<open>x\<^sup>T dP\<^sub>i x + gamma * trace(Sigma B\<^sup>T dP\<^sub>i B) / (1 - gamma)\<close>,
  with \<open>dP\<^sub>i\<close>, \<open>dL\<^sub>i\<close> and \<open>dM\<^sub>i\<close> as the claim defines them from the one-hot matrix of
  entry \<open>i\<close> and the inverse of \<open>M\<close>.
\<close>

theorem compute_lqg_gradient_components:
  assumes "lqr_shapes n m lqr" "is_mat m n K" "is_mat m m Sig" "length x = n"
    and "lqr_gamma lqr \<noteq> 1" "nonsingular (system_matrix lqr K)"
  shows "\<exists>Minv. inv_m (system_matrix lqr K) = Inr Minv
           \<and> mmul (system_matrix lqr K) Minv = eye (n * n)
           \<and> compute_lqg_gradient x lqr K Sig
               = Inr (mk_vec (nrows K * ncols K) (\<lambda>i. - dJ_i x lqr K Sig Minv i))"
proof -
  from inv_m_nonsingular [OF _ _ assms(6)] obtain Minv
    where Minv: "inv_m (system_matrix lqr K) = Inr Minv" by auto
  from inv_m_Inr(5) [OF _ Minv] lqr_shapesD(8) [OF assms(1)]
  have "mmul (system_matrix lqr K) Minv = eye (n * n)"
    by (simp add: power2_eq_square)
  with Minv compute_lqg_gradient_fit [OF assms(1-5) Minv] is_matD [OF assms(2)]
  show ?thesis by simp
qed

lemma ex_inv: "inv_m ex_M = Inr ex_Minv"
  by code_simp

lemma ex_dJ_0: "dJ_i [1, 2] ex_lqr ex_K ex_Sig ex_Minv 0 = 2760 / 289"
  by code_simp

lemma ex_dJ_1: "dJ_i [1, 2] ex_lqr ex_K ex_Sig ex_Minv 1 = 5944 / 1445"
  by code_simp

lemma ex_Sig_shape: "is_mat 1 1 ex_Sig"
  by code_simp

theorem compute_lqg_gradient_components_witness:
  "lqr_shapes 2 1 ex_lqr \<and> is_mat 1 2 ex_K \<and> is_mat 1 1 ex_Sig \<and> length [1, 2 :: real] = 2 \<and>
   lqr_gamma ex_lqr \<noteq> 1 \<and> nonsingular (system_matrix ex_lqr ex_K) \<and>
   compute_lqg_gradient [1, 2] ex_lqr ex_K ex_Sig = Inr [- (2760 / 289), - (5944 / 1445)]"
proof -
  have len: "length [1, 2 :: real] = 2" by simp
  from compute_lqg_gradient_components
    [OF ex_shapes ex_K_shape ex_Sig_shape len ex_gamma ex_nonsingular]
  have "compute_lqg_gradient [1, 2] ex_lqr ex_K ex_Sig
        = Inr (mk_vec (nrows ex_K * ncols ex_K) (\<lambda>i. - dJ_i [1, 2] ex_lqr ex_K ex_Sig ex_Minv i))"
    by (auto simp: ex_system_matrix ex_inv)
  also have "nrows ex_K * ncols ex_K = Suc (Suc 0)"
    by (simp add: ex_K_def)
  also have "mk_vec (Suc (Suc 0)) (\<lambda>i. - dJ_i [1, 2] ex_lqr ex_K ex_Sig ex_Minv i)
             = [- (2760 / 289), - (5944 / 1445)]"
    using ex_dJ_0 ex_dJ_1 by (simp add: mk_vec_def)
  finally show ?thesis
    using ex_shapes ex_K_shape ex_Sig_shape ex_gamma ex_nonsingular by simp
qed

section \<open>Singular systems, in exact arithmetic\<close>

lemma solve_cases:
  assumes "wf_mat M" "nrows M = ncols M" "length b = nrows M"
  shows "nonsingular M \<Longrightarrow> \<exists>x. solve M b = Inr x"
    and "\<not> nonsingular M \<Longrightarrow> solve M b = Inl SingularMatrix"
proof -
  show "nonsingular M \<Longrightarrow> \<exists>x. solve M b = Inr x"
    by (rule solve_nonsingular [OF assms])
  assume ns: "\<not> nonsingular M"
  show "solve M b = Inl SingularMatrix"
  proof (cases "solve M b")
    case (Inl e)
    with solve_singular(1) [OF assms Inl] show ?thesis by simp
  next
    case (Inr x)
    with solve_Inr_nonsingular [OF assms(1) Inr] ns show ?thesis by simp
  qed
qed

lemma inv_m_cases:
  assumes "wf_mat M" "nrows M = ncols M"
  shows "nonsingular M \<Longrightarrow> \<exists>Mi. inv_m M = Inr Mi"
    and "\<not> nonsingular M \<Longrightarrow> inv_m M = Inl SingularMatrix"
proof -
  show "nonsingular M \<Longrightarrow> \<exists>Mi. inv_m M = Inr Mi"
    by (rule inv_m_nonsingular [OF assms])
  assume ns: "\<not> nonsingular M"
  show "inv_m M = Inl SingularMatrix"
  proof (cases "inv_m M")
    case (Inl e)
    with inv_m_Inl(1) [OF assms Inl] show ?thesis by simp
  next
    case (Inr Mi)
    with inv_m_Inr(6) [OF assms(1) Inr] ns show ?thesis by simp
  qed
qed

lemma compute_lqr_P_singular:
  assumes "lqr_shapes n m lqr" "is_mat m n K" "\<not> nonsingular (system_matrix lqr K)"
  shows "compute_lqr_P lqr K = Inl SingularMatrix"
proof -
  note s = lqr_shapesD [OF assms(1)]
  have "solve (system_matrix lqr K) (flatten (lyap_L lqr K)) = Inl SingularMatrix"
    using s by (intro solve_cases(2) assms(3)) (simp_all add: power2_eq_square)
  then show ?thesis
    by (simp add: compute_lqr_P_def parse_lqr_def intermediate_results_fit [OF assms(1,2)])
qed

lemma evaluators_propagate:
  assumes "compute_lqr_P lqr K = Inl e"
  shows "compute_lqr_V x lqr K = Inl e" "compute_lqg_V x lqr K Sig = Inl e"
    "compute_lqr_Q z lqr K = Inl e" "compute_lqg_Q z lqr K Sig = Inl e"
  using assms
  by (simp_all add: compute_lqr_V_def compute_lqg_V_def compute_lqr_Q_def compute_lqg_Q_def
      compute_lqr_Q_matrix_Inl)

lemma compute_lqg_gradient_singular:
  assumes "lqr_shapes n m lqr" "is_mat m n K" "\<not> nonsingular (system_matrix lqr K)"
  shows "compute_lqg_gradient x lqr K Sig = Inl SingularMatrix"
proof -
  have "inv_m (system_matrix lqr K) = Inl SingularMatrix"
    by (intro inv_m_cases(2) assms(3)) simp_all
  then show ?thesis
    by (simp add: compute_lqg_gradient_def parse_lqr_def intermediate_results_fit [OF assms(1,2)])
qed

lemma evaluators_succeed:
  assumes "lqr_shapes n m lqr" "is_mat m n K" "is_mat m m Sig" "length x = n"
    and "length z = n + m" "lqr_gamma lqr \<noteq> 1" "compute_lqr_P lqr K = Inr P"
  shows "\<exists>v. compute_lqr_V x lqr K = Inr v" "\<exists>v. compute_lqg_V x lqr K Sig = Inr v"
    "\<exists>v. compute_lqr_Q z lqr K = Inr v" "\<exists>v. compute_lqg_Q z lqr K Sig = Inr v"
proof -
  note s = lqr_shapesD [OF assms(1)] is_matD [OF assms(3)]
  note p = is_matD [OF compute_lqr_P_Inr(1) [OF assms(1,2,7)]]
  have qx: "quad_form x P = Inr (- bil x P x)"
    using p assms(4) by (simp add: quad_form_bil)
  have qz: "quad_form z (Q_matrix lqr P) = Inr (- bil z (Q_matrix lqr P) z)"
    using s assms(5) by (intro quad_form_bil) (simp_all add: Q_matrix_def Let_def)
  note qm = compute_lqr_Q_matrix_fit [OF assms(1,7) p(2,3)]
  show "\<exists>v. compute_lqr_V x lqr K = Inr v"
    by (simp add: compute_lqr_V_def assms(7) qx)
  show "\<exists>v. compute_lqg_V x lqr K Sig = Inr v"
    using s p assms(6)
    by (simp add: compute_lqg_V_def assms(7) parse_lqr_def qx matmul_fits add_same_shape)
  show "\<exists>v. compute_lqr_Q z lqr K = Inr v"
    by (simp add: compute_lqr_Q_def qm qz)
  have "\<exists>b. compute_lqg_Q_additional_term lqr K Sig = Inr b"
    using s p assms(6)
    by (simp add: compute_lqg_Q_additional_term_def assms(7) parse_lqr_def matmul_fits
        add_same_shape)
  then show "\<exists>v. compute_lqg_Q z lqr K Sig = Inr v"
    by (auto simp: compute_lqg_Q_def qm qz)
qed

lemma riccati_gain_cases:
  assumes "lqr_shapes n m lqr"
  shows "nonsingular (gain_matrix lqr P) \<Longrightarrow> \<exists>K. riccati_gain lqr P = Inr K"
    and "\<not> nonsingular (gain_matrix lqr P) \<Longrightarrow> riccati_gain lqr P = Inl SingularMatrix"
proof -
  note s = lqr_shapesD [OF assms]
  have sq: "nrows (gain_matrix lqr P) = ncols (gain_matrix lqr P)" using s by simp
  show "nonsingular (gain_matrix lqr P) \<Longrightarrow> \<exists>K. riccati_gain lqr P = Inr K"
    using inv_m_cases(1) [OF _ sq] by (auto simp: riccati_gain_def)
  show "\<not> nonsingular (gain_matrix lqr P) \<Longrightarrow> riccati_gain lqr P = Inl SingularMatrix"
    using inv_m_cases(2) [OF _ sq] by (simp add: riccati_gain_def)
qed

lemma riccati_iterate_cases:
  assumes "lqr_shapes n m lqr"
  shows "(riccati_nonsingular k lqr P \<longrightarrow>
            (\<exists>K. (case riccati_iterate k lqr P of Inl e \<Rightarrow> Inl e
                   | Inr P' \<Rightarrow> riccati_gain lqr P') = Inr K))
         \<and> (\<not> riccati_nonsingular k lqr P \<longrightarrow>
            (case riccati_iterate k lqr P of Inl e \<Rightarrow> Inl e
             | Inr P' \<Rightarrow> riccati_gain lqr P') = Inl SingularMatrix)"
proof (induction k arbitrary: P)
  case 0
  show ?case using riccati_gain_cases [OF assms, of P] by simp
next
  case (Suc k)
  show ?case
  proof (cases "nonsingular (gain_matrix lqr P)")
    case False
    with riccati_gain_cases(2) [OF assms, of P] show ?thesis by simp
  next
    case True
    with riccati_gain_cases(1) [OF assms, of P] obtain K where "riccati_gain lqr P = Inr K"
      by blast
    with True Suc.IH [of "riccati_rhs lqr K P"] show ?thesis by simp
  qed
qed

lemma solve_lqr_linear_cases:
  assumes "lqr_shapes n m lqr"
  shows "riccati_nonsingular k lqr (eye n) \<Longrightarrow> \<exists>K. solve_lqr_linear lqr (int k) = Inr K"
    and "\<not> riccati_nonsingular k lqr (eye n) \<Longrightarrow> solve_lqr_linear lqr (int k) = Inl SingularMatrix"
  using riccati_iterate_cases [OF assms, of k "eye n"] lqr_shapesD(8) [OF assms]
  by (simp_all add: solve_lqr_linear_riccati [OF assms] riccati_solution_def)

text \<open>
  In exact arithmetic, on inputs of consistent dimensions with \<open>gamma \<noteq> 1\<close>: an error of a
  linear solve or inverse reaches the caller as it is, from every entry point, and nothing
  is returned in its place; with the exact solve that error arises exactly on a singular
  matrix. For \<^verbatim>\<open>solve_lqr_linear\<close> the matrices are the \<open>R + gamma * B\<^sup>T P B\<close> of the \<open>k\<close>
  updates and of the final gain. On which double matrices LAPACK raises is not decided here.
\<close>

lemma singular_errors_propagate:
  assumes "lqr_shapes n m lqr" "is_mat m n K" "is_mat m m Sig" "length x = n"
    and "length z = n + m" "lqr_gamma lqr \<noteq> 1"
  shows "(if nonsingular (system_matrix lqr K)
          then (\<exists>P. compute_lqr_P lqr K = Inr P) \<and> (\<exists>v. compute_lqr_V x lqr K = Inr v)
             \<and> (\<exists>v. compute_lqg_V x lqr K Sig = Inr v) \<and> (\<exists>v. compute_lqr_Q z lqr K = Inr v)
             \<and> (\<exists>v. compute_lqg_Q z lqr K Sig = Inr v)
             \<and> (\<exists>g. compute_lqg_gradient x lqr K Sig = Inr g)
          else compute_lqr_P lqr K = Inl SingularMatrix
             \<and> compute_lqr_V x lqr K = Inl SingularMatrix
             \<and> compute_lqg_V x lqr K Sig = Inl SingularMatrix
             \<and> compute_lqr_Q z lqr K = Inl SingularMatrix
             \<and> compute_lqg_Q z lqr K Sig = Inl SingularMatrix
             \<and> compute_lqg_gradient x lqr K Sig = Inl SingularMatrix)
         \<and> (if riccati_nonsingular k lqr (eye n)
            then (\<exists>K'. solve_lqr_linear lqr (int k) = Inr K')
            else solve_lqr_linear lqr (int k) = Inl SingularMatrix)"
proof -
  have riccati: "if riccati_nonsingular k lqr (eye n)
            then (\<exists>K'. solve_lqr_linear lqr (int k) = Inr K')
            else solve_lqr_linear lqr (int k) = Inl SingularMatrix"
    using solve_lqr_linear_cases [OF assms(1), of k] by simp
  show ?thesis
  proof (cases "nonsingular (system_matrix lqr K)")
    case True
    from compute_lqr_P_nonsingular [OF assms(1,2) True]
    obtain P where P: "compute_lqr_P lqr K = Inr P" by blast
    from inv_m_nonsingular [OF _ _ True] obtain Minv
      where "inv_m (system_matrix lqr K) = Inr Minv" by auto
    from compute_lqg_gradient_fit [OF assms(1-4,6) this]
    have "\<exists>g. compute_lqg_gradient x lqr K Sig = Inr g" by simp
    with True P evaluators_succeed [OF assms P] riccati show ?thesis by simp
  next
    case False
    note P = compute_lqr_P_singular [OF assms(1,2) False]
    from False riccati show ?thesis
      by (simp add: P evaluators_propagate [OF P]
          compute_lqg_gradient_singular [OF assms(1,2) False])
  qed
qed

lemma riccati_gain_Inr_nonsingular:
  "riccati_gain lqr P = Inr K \<Longrightarrow> nonsingular (gain_matrix lqr P)"
  by (cases "inv_m (gain_matrix lqr P)") (auto simp: riccati_gain_def dest: inv_m_Inr(6) [rotated])

lemma ex_riccati_nonsingular: "riccati_nonsingular (Suc 0) ex_lqr (eye 2)"
proof -
  have n: "nrows (lqr_Q ex_lqr) = 2" by (simp add: ex_lqr_def)
  note g0 = ex_riccati_gain_0 [unfolded n] and r0 = ex_riccati_rhs_0 [unfolded n]
  show ?thesis
    using riccati_gain_Inr_nonsingular [OF g0] riccati_gain_Inr_nonsingular [OF ex_riccati_gain_1]
    by (simp add: g0 r0)
qed

lemma ex_singular_shapes: "lqr_shapes 1 1 ex_singular"
  by code_simp

lemma ex_K_zero_shape: "is_mat 1 1 ex_K_zero"
  by code_simp

lemma ex_singular_gamma: "lqr_gamma ex_singular \<noteq> 1"
  by code_simp

lemma ex_singular_system: "inv_m (system_matrix ex_singular ex_K_zero) = Inl SingularMatrix"
  by code_simp

lemma ex_singular_gain: "inv_m (gain_matrix ex_singular (eye 1)) = Inl SingularMatrix"
  by code_simp

lemma ex_singular_system_matrix: "\<not> nonsingular (system_matrix ex_singular ex_K_zero)"
  by (rule inv_m_Inl(2) [OF _ _ ex_singular_system]) simp_all

lemma ex_singular_riccati: "\<not> riccati_nonsingular 0 ex_singular (eye 1)"
  using inv_m_Inl(2) [OF _ _ ex_singular_gain] ex_singular_shapes
  by (simp add: lqr_shapes_def is_mat_def)

lemma singular_errors_propagate_instance:
  "lqr_shapes 2 1 ex_lqr \<and> is_mat 1 2 ex_K \<and> is_mat 1 1 ex_Sig \<and> length [1, 2 :: real] = 2 \<and>
   length [1, 2, - (5 / 2) :: real] = 2 + 1 \<and> lqr_gamma ex_lqr \<noteq> 1 \<and>
   nonsingular (system_matrix ex_lqr ex_K) \<and> riccati_nonsingular (Suc 0) ex_lqr (eye 2) \<and>
   (\<exists>P. compute_lqr_P ex_lqr ex_K = Inr P) \<and>
   (\<exists>v. compute_lqr_V [1, 2] ex_lqr ex_K = Inr v) \<and>
   (\<exists>v. compute_lqg_V [1, 2] ex_lqr ex_K ex_Sig = Inr v) \<and>
   (\<exists>v. compute_lqr_Q [1, 2, - (5 / 2)] ex_lqr ex_K = Inr v) \<and>
   (\<exists>v. compute_lqg_Q [1, 2, - (5 / 2)] ex_lqr ex_K ex_Sig = Inr v) \<and>
   (\<exists>g. compute_lqg_gradient [1, 2] ex_lqr ex_K ex_Sig = Inr g) \<and>
   (\<exists>K'. solve_lqr_linear ex_lqr 1 = Inr K') \<and>
   lqr_shapes 1 1 ex_singular \<and> is_mat 1 1 ex_K_zero \<and> length [1 :: real] = 1 \<and>
   length [1, 0 :: real] = 1 + 1 \<and> lqr_gamma ex_singular \<noteq> 1 \<and>
   \<not> nonsingular (system_matrix ex_singular ex_K_zero) \<and>
   \<not> riccati_nonsingular 0 ex_singular (eye 1) \<and>
   compute_lqr_P ex_singular ex_K_zero = Inl SingularMatrix \<and>
   compute_lqr_V [1] ex_singular ex_K_zero = Inl SingularMatrix \<and>
   compute_lqg_V [1] ex_singular ex_K_zero ex_Sig = Inl SingularMatrix \<and>
   compute_lqr_Q [1, 0] ex_singular ex_K_zero = Inl SingularMatrix \<and>
   compute_lqg_Q [1, 0] ex_singular ex_K_zero ex_Sig = Inl SingularMatrix \<and>
   compute_lqg_gradient [1] ex_singular ex_K_zero ex_Sig = Inl SingularMatrix \<and>
   solve_lqr_linear ex_singular 0 = Inl SingularMatrix"
proof -
  have l2: "length [1, 2 :: real] = 2" and l3: "length [1, 2, - (5 / 2) :: real] = 2 + 1"
    and l1: "length [1 :: real] = 1" and l2': "length [1, 0 :: real] = 1 + 1"
    by simp_all
  note good = singular_errors_propagate
    [OF ex_shapes ex_K_shape ex_Sig_shape l2 l3 ex_gamma, of "Suc 0"]
  note bad = singular_errors_propagate
    [OF ex_singular_shapes ex_K_zero_shape ex_Sig_shape l1 l2' ex_singular_gamma, of 0]
  show ?thesis
    using good bad ex_shapes ex_K_shape ex_Sig_shape ex_gamma ex_nonsingular
      ex_riccati_nonsingular ex_singular_shapes ex_K_zero_shape ex_singular_gamma
      ex_singular_system_matrix ex_singular_riccati
    by simp
qed

section \<open>Shape checks\<close>

lemma ex_wide_Q_gain:
  "compute_riccati_gain (eye (nrows (lqr_Q ex_wide_Q))) (lqr_A ex_wide_Q) (lqr_B ex_wide_Q)
     (lqr_R ex_wide_Q) (lqr_gamma ex_wide_Q) = Inr ex_K0"
  by code_simp

lemma ex_wide_Q_cols: "ncols (lqr_Q ex_wide_Q) \<noteq> ncols (lqr_A ex_wide_Q)"
  by code_simp

text \<open>
  C7 fails as stated: \<^verbatim>\<open>_parse_lqr\<close> only reads the five attributes and no entry point
  checks a shape. With a 2 by 3 matrix for \<open>Q\<close> beside a 2 by 2 \<open>A\<close>, \<^verbatim>\<open>solve_lqr_linear\<close>
  with \<open>max_iterations = 0\<close> reads only the row count of \<open>Q\<close> and returns a gain.
\<close>

theorem shape_check_counterexample:
  "ncols (lqr_Q ex_wide_Q) \<noteq> ncols (lqr_A ex_wide_Q) \<and> solve_lqr_linear ex_wide_Q 0 = Inr ex_K0"
  using ex_wide_Q_cols
  by (simp add: solve_lqr_linear_def parse_lqr_def Let_def ex_wide_Q_gain riccati_loop.simps)

lemma intermediate_results_mismatch:
  "nrows K \<noteq> nrows R \<Longrightarrow> compute_lqr_intermediate_results K A B Q R g = Inl ShapeMismatch"
  by (simp add: compute_lqr_intermediate_results_def Let_def matmul_def)

lemma compute_riccati_gain_mismatch:
  "nrows B \<noteq> nrows P \<Longrightarrow> compute_riccati_gain P A B R g = Inl ShapeMismatch"
  by (simp add: compute_riccati_gain_def matmul_def)

text \<open>
  C7, amended. A mismatch is reported by the first array operation whose operands do not
  fit. When the row count of \<open>K\<close> differs from that of \<open>R\<close>, the six entry points that take
  \<open>K\<close> report \<open>ShapeMismatch\<close> from their first operation \<open>K\<^sup>T R\<close>, whatever the other
  inputs are; when the row count of \<open>B\<close> differs from that of \<open>Q\<close>, \<^verbatim>\<open>solve_lqr_linear\<close>
  reports it from its first operation \<open>B\<^sup>T P\<^sub>0\<close>.
\<close>

theorem shape_mismatch_first_operation:
  "(nrows K \<noteq> nrows (lqr_R lqr) \<longrightarrow>
      compute_lqr_P lqr K = Inl ShapeMismatch \<and> compute_lqr_V x lqr K = Inl ShapeMismatch
      \<and> compute_lqg_V x lqr K Sig = Inl ShapeMismatch
      \<and> compute_lqr_Q z lqr K = Inl ShapeMismatch
      \<and> compute_lqg_Q z lqr K Sig = Inl ShapeMismatch
      \<and> compute_lqg_gradient x lqr K Sig = Inl ShapeMismatch)
   \<and> (nrows (lqr_B lqr) \<noteq> nrows (lqr_Q lqr) \<longrightarrow>
      solve_lqr_linear lqr max_iterations = Inl ShapeMismatch)"
proof (intro conjI impI)
  assume "nrows (lqr_B lqr) \<noteq> nrows (lqr_Q lqr)"
  then show "solve_lqr_linear lqr max_iterations = Inl ShapeMismatch"
    by (simp add: solve_lqr_linear_def parse_lqr_def Let_def compute_riccati_gain_mismatch)
next
  assume K: "nrows K \<noteq> nrows (lqr_R lqr)"
  show P: "compute_lqr_P lqr K = Inl ShapeMismatch"
    by (simp add: compute_lqr_P_def parse_lqr_def intermediate_results_mismatch [OF K])
  note evaluators_propagate [OF P]
  then show "compute_lqr_V x lqr K = Inl ShapeMismatch"
    "compute_lqg_V x lqr K Sig = Inl ShapeMismatch"
    "compute_lqr_Q z lqr K = Inl ShapeMismatch"
    "compute_lqg_Q z lqr K Sig = Inl ShapeMismatch"
    by simp_all
  show "compute_lqg_gradient x lqr K Sig = Inl ShapeMismatch"
    by (simp add: compute_lqg_gradient_def parse_lqr_def intermediate_results_mismatch [OF K])
qed

lemma ex_P_rows: "nrows ex_P \<noteq> nrows (lqr_R ex_lqr)"
  by code_simp

lemma ex_small_Q_rows: "nrows (lqr_B ex_small_Q) \<noteq> nrows (lqr_Q ex_small_Q)"
  by code_simp

theorem shape_mismatch_first_operation_witness:
  "nrows ex_P \<noteq> nrows (lqr_R ex_lqr) \<and>
   compute_lqr_P ex_lqr ex_P = Inl ShapeMismatch \<and>
   compute_lqr_V [1, 2] ex_lqr ex_P = Inl ShapeMismatch \<and>
   compute_lqg_V [1, 2] ex_lqr ex_P ex_Sig = Inl ShapeMismatch \<and>
   compute_lqr_Q [1, 2, 3] ex_lqr ex_P = Inl ShapeMismatch \<and>
   compute_lqg_Q [1, 2, 3] ex_lqr ex_P ex_Sig = Inl ShapeMismatch \<and>
   compute_lqg_gradient [1, 2] ex_lqr ex_P ex_Sig = Inl ShapeMismatch \<and>
   nrows (lqr_B ex_small_Q) \<noteq> nrows (lqr_Q ex_small_Q) \<and>
   solve_lqr_linear ex_small_Q 100 = Inl ShapeMismatch"
  using shape_mismatch_first_operation [of ex_P ex_lqr "[1, 2]" ex_Sig "[1, 2, 3]" 100]
    shape_mismatch_first_operation [of ex_P ex_small_Q "[1, 2]" ex_Sig "[1, 2, 3]" 100]
    ex_P_rows ex_small_Q_rows
  by simp

end
